theory Spec2Isabelle
  imports Complex_Main "HOL-Library.Product_Lexorder" "HOL-Library.Multiset"
begin

section \<open>JavaScript values\<close>

text \<open>
  A JavaScript number is a finite double, one of the two infinities, or NaN.  The finite
  ones are embedded in the reals: \<open>Math.floor\<close>, \<open>Math.min\<close>, \<open>Math.max\<close> and the
  comparisons of \<open>server.js\<close> never round, so they are exact on this embedding.  The two
  zeros are one value \<open>Fin 0\<close>: the code never distinguishes them.
\<close>

datatype jsnum = Fin real | PosInf | NegInf | NaN

text \<open>
  The values of a parsed JSON document, and \<open>undefined\<close> for an absent property.
\<close>

datatype jsval =
    JUndefined
  | JNull
  | JBool bool
  | JNum jsnum
  | JStr string
  | JArr "jsval list"
  | JObj "(string \<times> jsval) list"

text \<open>Truthiness, as tested by \<open>!x\<close>, \<open>x && y\<close> and \<open>x || y\<close>.\<close>

fun truthy :: "jsval \<Rightarrow> bool" where
  "truthy JUndefined = False"
| "truthy JNull = False"
| "truthy (JBool b) = b"
| "truthy (JNum n) = (n \<noteq> Fin 0 \<and> n \<noteq> NaN)"
| "truthy (JStr s) = (s \<noteq> [])"
| "truthy (JArr xs) = True"
| "truthy (JObj kvs) = True"

text \<open>\<open>typeof v === "number"\<close>.\<close>

fun typeof_number :: "jsval \<Rightarrow> bool" where
  "typeof_number (JNum n) = True"
| "typeof_number v = False"

text \<open>\<open>Math.floor\<close>, \<open>Number.isFinite\<close>, \<open>n < m\<close>, \<open>Math.min\<close> and \<open>Math.max\<close>.\<close>

fun Math_floor :: "jsnum \<Rightarrow> jsnum" where
  "Math_floor (Fin x) = Fin (of_int \<lfloor>x\<rfloor>)"
| "Math_floor n = n"

fun Number_isFinite :: "jsnum \<Rightarrow> bool" where
  "Number_isFinite (Fin x) = True"
| "Number_isFinite n = False"

fun js_less :: "jsnum \<Rightarrow> jsnum \<Rightarrow> bool" where
  "js_less NaN m = False"
| "js_less n NaN = False"
| "js_less (Fin x) (Fin y) = (x < y)"
| "js_less NegInf NegInf = False"
| "js_less NegInf m = True"
| "js_less n PosInf = (n \<noteq> PosInf)"
| "js_less n m = False"

fun Math_min :: "jsnum \<Rightarrow> jsnum \<Rightarrow> jsnum" where
  "Math_min NaN m = NaN"
| "Math_min n NaN = NaN"
| "Math_min n m = (if js_less m n then m else n)"

fun Math_max :: "jsnum \<Rightarrow> jsnum \<Rightarrow> jsnum" where
  "Math_max NaN m = NaN"
| "Math_max n NaN = NaN"
| "Math_max n m = (if js_less n m then m else n)"

section \<open>Helpers of server.js\<close>

text \<open>
  \<^verbatim>\<open>
  function clampScore(raw) {
    const n = Math.floor(Number(raw));
    if (!Number.isFinite(n) || n < 0) return 0;
    return Math.min(n, 1_000_000_000);
  }
  \<close>
  The argument of the model is \<open>Number(raw)\<close>, the numeric coercion of the input; the
  handler calls \<open>clampScore\<close> on a value whose \<open>typeof\<close> is \<open>"number"\<close>, where the
  coercion is the identity.
\<close>

definition clampScore :: "jsnum \<Rightarrow> jsnum" where
  "clampScore raw =
     (let n = Math_floor raw in
      if \<not> Number_isFinite n \<or> js_less n (Fin 0) then Fin 0
      else Math_min n (Fin 1000000000))"

text \<open>
  \<^verbatim>\<open>
  async function getJson(url) {
    const r = await fetch(url, { headers: { "Accept": "application/json" } });
    if (!r.ok) throw new Error(`Horizon error ${r.status}`);
    return r.json();
  }
  \<close>
  What \<open>fetch\<close> delivers is the environment's: either no response at all, or a status
  with a body that parses as the expected JSON document or does not.  A thrown
  exception is a value of type \<open>error\<close>.
\<close>

datatype error =
    HorizonError nat       \<comment> \<open>\<open>new Error(`Horizon error ${r.status}`)\<close>\<close>
  | FetchError             \<comment> \<open>\<open>fetch\<close> or \<open>r.json()\<close> rejected\<close>
  | UniqueViolation        \<comment> \<open>the database refused a second row with the same \<open>tx_hash\<close>\<close>
  | CheckViolation         \<comment> \<open>the database refused a score outside the column's CHECK\<close>
  | InvalidInteger         \<comment> \<open>the database refused a parameter that is no integer\<close>

datatype 'a http = NoResponse | Response nat "'a option"

definition getJson :: "'a http \<Rightarrow> error + 'a" where
  "getJson r =
     (case r of
        NoResponse \<Rightarrow> Inl FetchError
      | Response status body \<Rightarrow>
          if \<not> (200 \<le> status \<and> status \<le> 299) then Inl (HorizonError status)
          else (case body of None \<Rightarrow> Inl FetchError | Some j \<Rightarrow> Inr j))"

subsection \<open>The ledger's records and the request\<close>

text \<open>
  The fields of a Horizon transaction and of a Horizon operation that the handler
  reads; an absent field is \<open>JUndefined\<close>.  The two documents have the shape that
  Horizon gives them: the transaction is an object, and \<open>_embedded.records\<close> of the
  operations page is a list of objects, or is absent.
\<close>

record tx =
  tx_successful :: jsval
  tx_memo_type :: jsval
  tx_created_at :: jsval

record operation =
  op_type :: jsval
  op_to :: jsval
  op_asset_type :: jsval
  op_asset_code :: jsval
  op_asset_issuer :: jsval
  op_amount :: jsval
  op_from :: jsval

text \<open>
  \<open>req.body\<close> with its three destructured fields, \<open>req.ip\<close> and the user-agent header.
\<close>

record request =
  body_txHash :: jsval
  body_address :: jsval
  body_score :: jsval
  req_ip :: "string option"
  req_ua :: "string option"

subsection \<open>The scores table\<close>

text \<open>
  One row of \<open>scores\<close>.  Timestamps of the database are integers (microseconds);
  \<open>paid_at\<close> keeps the transaction's \<open>created_at\<close> as it was passed.
\<close>

record row =
  row_id :: int
  row_address :: string
  row_score :: int
  row_tx_hash :: string
  row_paid_at :: jsval
  row_created_at :: int
  row_ip :: "string option"
  row_ua :: "string option"

text \<open>The table in physical order, and the next value of the \<open>id\<close> sequence.\<close>

record db =
  rows :: "row list"
  next_id :: int

text \<open>The columns that \<open>topN\<close> and the leaderboard select.\<close>

record entry =
  address :: string
  score :: int
  txHash :: string
  paidAtISO :: jsval

text \<open>A response: the status and what was sent.\<close>

datatype body =
    Text string            \<comment> \<open>\<open>res.send("...")\<close>\<close>
  | ErrorMessage error     \<comment> \<open>\<open>res.send(e.message || "server error")\<close>\<close>
  | Top10 "entry list"     \<comment> \<open>\<open>res.json({ ok: true, top10: ... })\<close>\<close>
  | Top "entry list"       \<comment> \<open>\<open>res.json({ top: ... })\<close>\<close>
  | RateLimited            \<comment> \<open>\<open>res.json({ ok: false, error: "rate_limited", message: ... })\<close>\<close>

datatype response = Resp nat body

subsection \<open>The environment\<close>

text \<open>
  What the handler obtains from outside \<open>server.js\<close>: the clock, the date parser, the
  two Horizon requests for a transaction hash, the clock of the database, and the
  conversions of a value that is not a string, by \<open>String(v)\<close> and by the database
  driver when \<open>v\<close> is a query parameter.
\<close>

record env =
  Date_now :: int                                    \<comment> \<open>\<open>Date.now()\<close>, milliseconds\<close>
  Date_getTime :: "jsval \<Rightarrow> int option"               \<comment> \<open>\<open>new Date(iso).getTime()\<close>, \<open>None\<close> for NaN\<close>
  fetch_tx :: "jsval \<Rightarrow> tx http"                      \<comment> \<open>\<open>/transactions/${txHash}\<close>\<close>
  fetch_ops :: "jsval \<Rightarrow> operation list option http" \<comment> \<open>\<open>_embedded.records\<close> of the operations page\<close>
  pg_now :: int                                      \<comment> \<open>\<open>NOW()\<close> of the INSERT\<close>
  other_String :: "jsval \<Rightarrow> string"                 \<comment> \<open>\<open>String(v)\<close> of a \<open>v\<close> that is no string\<close>
  other_param :: "jsval \<Rightarrow> string"                  \<comment> \<open>the driver's text of a parameter that is no string\<close>
  pg_scan :: "row list \<Rightarrow> row list"                \<comment> \<open>the order in which a query reads the table\<close>

fun String_js :: "env \<Rightarrow> jsval \<Rightarrow> string" where
  "String_js E (JStr s) = s"
| "String_js E v = other_String E v"

fun pg_text :: "env \<Rightarrow> jsval \<Rightarrow> string" where
  "pg_text E (JStr s) = s"
| "pg_text E v = other_param E v"

text \<open>
  \<open>Number(v)\<close> where \<open>typeof v\<close> is \<open>"number"\<close>; the handler coerces no other value.
\<close>

fun num_of :: "jsval \<Rightarrow> jsnum" where
  "num_of (JNum n) = n"
| "num_of v = NaN"

text \<open>
  \<^verbatim>\<open>
  function isRecent(iso, minutes = 30) {
    try { return (Date.now() - new Date(iso).getTime()) <= minutes * 60 * 1000; }
    catch { return false; }
  }
  \<close>
  A time value is an integer number of milliseconds or NaN, and a comparison with NaN
  is false.
\<close>

definition isRecent :: "env \<Rightarrow> jsval \<Rightarrow> int \<Rightarrow> bool" where
  "isRecent E iso_time minutes =
     (case Date_getTime E iso_time of
        None \<Rightarrow> False
      | Some t \<Rightarrow> Date_now E - t \<le> minutes * 60 * 1000)"

text \<open>
  \<^verbatim>\<open>
  async function txAlreadyUsed(txHash) {
    const { rows } = await pool.query(`SELECT 1 FROM scores WHERE tx_hash = $1 LIMIT 1`, [txHash]);
    return rows.length > 0;
  }
  \<close>
  The query is taken to run: a parameter that PostgreSQL refuses as text (a string with
  the character NUL), on which the query throws, is outside the model.
\<close>

definition txAlreadyUsed :: "env \<Rightarrow> db \<Rightarrow> jsval \<Rightarrow> bool" where
  "txAlreadyUsed E d h =
     (length (take 1 (filter (\<lambda>r. row_tx_hash r = pg_text E h) (rows d))) > 0)"

subsection \<open>Ranking, top-N and pruning\<close>

text \<open>\<open>ORDER BY score DESC, created_at ASC, id ASC\<close>: ascending in this key.\<close>

definition rank_key :: "row \<Rightarrow> int \<times> int \<times> int" where
  "rank_key r = (- row_score r, row_created_at r, row_id r)"

definition ranked :: "row list \<Rightarrow> row list" where
  "ranked rs = sort_key rank_key rs"

text \<open>
  A number passed for \<open>LIMIT $1\<close>: the driver sends its text and the database reads
  a \<open>BIGINT\<close> from it.  It refuses a number that is not an integer or is out of
  range, and a negative limit.
\<close>

definition pg_limit :: "jsnum \<Rightarrow> nat option" where
  "pg_limit n =
     (case n of
        Fin x \<Rightarrow> if x = of_int \<lfloor>x\<rfloor> \<and> 0 \<le> x \<and> \<lfloor>x\<rfloor> < 2 ^ 63 then Some (nat \<lfloor>x\<rfloor>) else None
      | _ \<Rightarrow> None)"

definition project :: "row \<Rightarrow> entry" where
  "project r =
     \<lparr>address = row_address r, score = row_score r,
      txHash = row_tx_hash r, paidAtISO = row_paid_at r\<rparr>"

text \<open>
  \<^verbatim>\<open>
  async function topN(n = 50) {
    const { rows } = await pool.query(
      `SELECT address, score, tx_hash AS "txHash", paid_at AS "paidAtISO"
         FROM scores
         ORDER BY score DESC, created_at ASC, id ASC
         LIMIT $1`,
      [n]
    );
    return rows;
  }
  \<close>
\<close>

definition topN :: "db \<Rightarrow> jsnum \<Rightarrow> error + entry list" where
  "topN d n =
     (case pg_limit n of
        None \<Rightarrow> Inl InvalidInteger
      | Some k \<Rightarrow> Inr (map project (take k (ranked (rows d)))))"

text \<open>
  \<^verbatim>\<open>
  DELETE FROM scores
  WHERE id NOT IN (
    SELECT id FROM scores
    ORDER BY score DESC, created_at ASC, id ASC
    LIMIT 100
  )
  \<close>
\<close>

definition prune :: "db \<Rightarrow> db" where
  "prune d =
     d\<lparr>rows := filter (\<lambda>r. row_id r \<in> set (map row_id (take 100 (ranked (rows d))))) (rows d)\<rparr>"

subsection \<open>INSERT\<close>

text \<open>
  \<^verbatim>\<open>
  INSERT INTO scores (address, score, tx_hash, paid_at, ip, ua) VALUES ($1,$2,$3,$4,$5,$6)
  \<close>
  on the table
  \<^verbatim>\<open>
  id BIGSERIAL PRIMARY KEY, score BIGINT NOT NULL CHECK (score >= 0 AND score <= 1000000000),
  tx_hash TEXT NOT NULL UNIQUE, created_at TIMESTAMPTZ NOT NULL DEFAULT NOW(), ...
  \<close>
  The number passed for \<open>score\<close> must read as a \<open>BIGINT\<close>.  The row takes the next
  value of the sequence, which stays consumed when a constraint refuses the row.  The
  second variant of the file declares \<open>score BIGINT NOT NULL\<close> with no CHECK: \<open>chk\<close>
  says whether the CHECK is there.  The column \<open>paid_at\<close> is a \<open>TIMESTAMPTZ\<close>; the row
  keeps the value of \<open>created_at\<close> as the ledger gave it, and the conversion, which
  fails on a value that is no timestamp, is outside the model.
\<close>

definition pg_bigint :: "jsnum \<Rightarrow> int option" where
  "pg_bigint n =
     (case n of
        Fin x \<Rightarrow>
          if x = of_int \<lfloor>x\<rfloor> \<and> - (2 ^ 63) \<le> \<lfloor>x\<rfloor> \<and> \<lfloor>x\<rfloor> < 2 ^ 63 then Some \<lfloor>x\<rfloor> else None
      | _ \<Rightarrow> None)"

definition insert_score ::
  "bool \<Rightarrow> env \<Rightarrow> db \<Rightarrow> string \<Rightarrow> jsnum \<Rightarrow> jsval \<Rightarrow> jsval \<Rightarrow> string option \<Rightarrow> string option
     \<Rightarrow> db \<times> error option" where
  "insert_score chk E d addr sc h paid ip ua =
     (case pg_bigint sc of
        None \<Rightarrow> (d, Some InvalidInteger)
      | Some k \<Rightarrow>
          let r = \<lparr>row_id = next_id d, row_address = addr, row_score = k,
                   row_tx_hash = pg_text E h, row_paid_at = paid,
                   row_created_at = pg_now E, row_ip = ip, row_ua = ua\<rparr>;
              d1 = d\<lparr>next_id := next_id d + 1\<rparr>
          in if chk \<and> \<not> (0 \<le> k \<and> k \<le> 1000000000) then (d1, Some CheckViolation)
             else if pg_text E h \<in> set (map row_tx_hash (rows d)) then (d1, Some UniqueViolation)
             else (d1\<lparr>rows := rows d @ [r]\<rparr>, None))"

section \<open>POST /submitScore\<close>

definition KALE_CODE :: string where
  "KALE_CODE = ''KALE''"

definition KALE_ISSUER :: string where
  "KALE_ISSUER = ''GBDVX4VELCDSQ54KQJYTNHXAHFLBCA77ZY2USQBM4CSHTTV7DME7KALE''"

definition TREASURY :: string where
  "TREASURY = ''GDIH6XE3UZ5CW37X3OKVS3SYKHG32PRPXPT3722NJ2AY3MOLCQNMUUTT''"

text \<open>
  \<open>toUpperCase\<close> on a string of ASCII characters.  The strings of the model are lists
  of 8-bit characters, read as ASCII: the letters outside ASCII, some of which
  JavaScript upper-cases into ASCII letters (the sharp s into \<open>SS\<close>, the long s into
  \<open>S\<close>), are left as they are, and a request with such a letter in its address is
  outside the model.
\<close>

definition upper_char :: "char \<Rightarrow> char" where
  "upper_char c =
     (case map_of (zip ''abcdefghijklmnopqrstuvwxyz'' ''ABCDEFGHIJKLMNOPQRSTUVWXYZ'') c of
        None \<Rightarrow> c
      | Some u \<Rightarrow> u)"

definition toUpperCase :: "string \<Rightarrow> string" where
  "toUpperCase s = map upper_char s"

text \<open>\<open>/^G[A-Z2-7]{55}$/.test(address)\<close>\<close>

definition base32_char :: "char \<Rightarrow> bool" where
  "base32_char c = (c \<in> set ''ABCDEFGHIJKLMNOPQRSTUVWXYZ234567'')"

definition valid_address :: "string \<Rightarrow> bool" where
  "valid_address s =
     (case s of
        [] \<Rightarrow> False
      | c # cs \<Rightarrow> c = CHR ''G'' \<and> length cs = 55 \<and> list_all base32_char cs)"

text \<open>
  The predicate of \<open>ops.filter\<close>:
  \<^verbatim>\<open>
  o.type === "payment" &&
  o.to === TREASURY &&
  (o.asset_type === "credit_alphanum4" || o.asset_type === "credit_alphanum12") &&
  o.asset_code === KALE_CODE &&
  o.asset_issuer === KALE_ISSUER &&
  o.amount === "1.0000000" &&
  o.from === address
  \<close>
\<close>

definition validPay :: "string \<Rightarrow> operation \<Rightarrow> bool" where
  "validPay addr o' =
     (op_type o' = JStr ''payment'' \<and>
      op_to o' = JStr TREASURY \<and>
      (op_asset_type o' = JStr ''credit_alphanum4'' \<or> op_asset_type o' = JStr ''credit_alphanum12'') \<and>
      op_asset_code o' = JStr KALE_CODE \<and>
      op_asset_issuer o' = JStr KALE_ISSUER \<and>
      op_amount o' = JStr ''1.0000000'' \<and>
      op_from o' = JStr addr)"

text \<open>\<open>req.ip || null\<close>\<close>

fun or_null :: "string option \<Rightarrow> string option" where
  "or_null None = None"
| "or_null (Some s) = (if s = [] then None else Some s)"

text \<open>
  The handler up to the INSERT, the same text in both variants of the file (lines
  134 to 170, and 314 to 355): the shape check, the address, the replay check, the
  transaction and its operations.  It answers, or goes on with the upper-case address,
  the clamped score and the transaction.
\<close>

definition submit_checks :: "env \<Rightarrow> db \<Rightarrow> request \<Rightarrow> response + (string \<times> jsnum \<times> tx)" where
  "submit_checks E d req =
     (if \<not> truthy (body_txHash req) \<or> \<not> truthy (body_address req)
         \<or> \<not> typeof_number (body_score req)
      then Inl (Resp 400 (Text ''txHash, address, score required''))
      else
        let addr = toUpperCase (String_js E (body_address req)) in
        if \<not> valid_address addr then Inl (Resp 400 (Text ''bad address''))
        else if txAlreadyUsed E d (body_txHash req) then Inl (Resp 409 (Text ''tx already used''))
        else
          let normScore = clampScore (num_of (body_score req)) in
          case getJson (fetch_tx E (body_txHash req)) of
            Inl e \<Rightarrow> Inl (Resp 500 (ErrorMessage e))
          | Inr t \<Rightarrow>
              if tx_successful t \<noteq> JBool True then Inl (Resp 400 (Text ''tx not successful''))
              else if truthy (tx_memo_type t) \<and> tx_memo_type t \<noteq> JStr ''none''
                then Inl (Resp 400 (Text ''memos not allowed''))
              else if \<not> isRecent E (tx_created_at t) 30 then Inl (Resp 400 (Text ''tx too old''))
              else
                (case getJson (fetch_ops E (body_txHash req)) of
                   Inl e \<Rightarrow> Inl (Resp 500 (ErrorMessage e))
                 | Inr opsPage \<Rightarrow>
                     let ops = (case opsPage of None \<Rightarrow> [] | Some rs \<Rightarrow> rs);
                         validPays = filter (validPay addr) ops
                     in if length validPays \<noteq> 1
                        then Inl (Resp 400 (Text ''no valid KALE payment op to treasury from address''))
                        else Inr (addr, normScore, t)))"

text \<open>
  The first variant: INSERT, prune to the best 100, answer with \<open>topN(10)\<close>.  The
  handler awaits between the replay check and the INSERT, and other requests may write
  in between: \<open>d0\<close> is the table that \<open>txAlreadyUsed\<close> reads and \<open>d\<close> the table at the
  INSERT.  Every exception is caught and answered with status 500.
\<close>

definition submitScore_at :: "env \<Rightarrow> db \<Rightarrow> db \<Rightarrow> request \<Rightarrow> db \<times> response" where
  "submitScore_at E d0 d req =
     (case submit_checks E d0 req of
        Inl resp \<Rightarrow> (d, resp)
      | Inr (addr, normScore, t) \<Rightarrow>
          (case insert_score True E d addr normScore (body_txHash req) (tx_created_at t)
                  (or_null (req_ip req)) (or_null (req_ua req)) of
             (d1, Some e) \<Rightarrow> (d1, Resp 500 (ErrorMessage e))
           | (d1, None) \<Rightarrow>
               let d2 = prune d1 in
               (case topN d2 (Fin 10) of
                  Inl e \<Rightarrow> (d2, Resp 500 (ErrorMessage e))
                | Inr top10 \<Rightarrow> (d2, Resp 200 (Top10 top10)))))"

text \<open>A request handled with no other request in flight.\<close>

definition submitScore :: "env \<Rightarrow> db \<Rightarrow> request \<Rightarrow> db \<times> response" where
  "submitScore E d req = submitScore_at E d d req"

text \<open>
  The second variant: INSERT, no pruning, and the ten first rows by
  \<open>ORDER BY score DESC, created_at ASC\<close>.  Rows with equal keys come in the order in
  which the database reads them.
\<close>

definition rank_key_v2 :: "row \<Rightarrow> int \<times> int" where
  "rank_key_v2 r = (- row_score r, row_created_at r)"

definition ranked_v2 :: "env \<Rightarrow> row list \<Rightarrow> row list" where
  "ranked_v2 E rs = sort_key rank_key_v2 (pg_scan E rs)"

definition submitScore_v2_at :: "env \<Rightarrow> db \<Rightarrow> db \<Rightarrow> request \<Rightarrow> db \<times> response" where
  "submitScore_v2_at E d0 d req =
     (case submit_checks E d0 req of
        Inl resp \<Rightarrow> (d, resp)
      | Inr (addr, normScore, t) \<Rightarrow>
          (case insert_score False E d addr normScore (body_txHash req) (tx_created_at t)
                  (or_null (req_ip req)) (or_null (req_ua req)) of
             (d1, Some e) \<Rightarrow> (d1, Resp 500 (ErrorMessage e))
           | (d1, None) \<Rightarrow>
               (d1, Resp 200 (Top10 (map project (take 10 (ranked_v2 E (rows d1))))))))"

definition submitScore_v2 :: "env \<Rightarrow> db \<Rightarrow> request \<Rightarrow> db \<times> response" where
  "submitScore_v2 E d req = submitScore_v2_at E d d req"

section \<open>GET /leaderboard\<close>

text \<open>
  \<^verbatim>\<open>
  const lim = Math.max(1, Math.min(Number(req.query.limit) || 50, 100));
  \<close>
  The argument is \<open>Number(req.query.limit)\<close>: NaN when the parameter is missing or
  is no numeric text, and \<open>0\<close> for the texts \<open>"0"\<close> and \<open>""\<close>.
\<close>

definition leaderboard_limit :: "jsnum \<Rightarrow> jsnum" where
  "leaderboard_limit n =
     Math_max (Fin 1) (Math_min (if truthy (JNum n) then n else Fin 50) (Fin 100))"

text \<open>
  \<^verbatim>\<open>
  app.get("/leaderboard", async (req, res) => {
    const lim = ...;
    res.json({ top: await topN(lim) });
  });
  \<close>
  Nothing catches here: when the query fails the handler's promise rejects (\<open>Inl\<close>).
\<close>

definition leaderboard :: "db \<Rightarrow> jsnum \<Rightarrow> error + response" where
  "leaderboard d n =
     (case topN d (leaderboard_limit n) of
        Inl e \<Rightarrow> Inl e
      | Inr entries \<Rightarrow> Inr (Resp 200 (Top entries)))"

text \<open>The second variant reads with \<open>ORDER BY score DESC, created_at ASC LIMIT $1\<close>.\<close>

definition leaderboard_v2 :: "env \<Rightarrow> db \<Rightarrow> jsnum \<Rightarrow> error + response" where
  "leaderboard_v2 E d n =
     (case pg_limit (leaderboard_limit n) of
        None \<Rightarrow> Inl InvalidInteger
      | Some k \<Rightarrow> Inr (Resp 200 (Top (map project (take k (ranked_v2 E (rows d)))))))"

section \<open>Runs, and the table's constraints\<close>

text \<open>A response with status 200.\<close>

definition accepted :: "response \<Rightarrow> bool" where
  "accepted resp = (case resp of Resp status b \<Rightarrow> status = 200)"

text \<open>
  The row that the handler's INSERT writes for the address \<open>a\<close>, the integer score \<open>k\<close>
  and the transaction \<open>t\<close>.
\<close>

definition new_row :: "env \<Rightarrow> db \<Rightarrow> request \<Rightarrow> string \<Rightarrow> int \<Rightarrow> tx \<Rightarrow> row" where
  "new_row E d req a k t =
     \<lparr>row_id = next_id d, row_address = a, row_score = k,
      row_tx_hash = pg_text E (body_txHash req), row_paid_at = tx_created_at t,
      row_created_at = pg_now E, row_ip = or_null (req_ip req), row_ua = or_null (req_ua req)\<rparr>"

text \<open>
  \<open>id\<close> is the primary key and comes from the sequence; \<open>tx_hash\<close> is unique.
\<close>

definition wf_db :: "db \<Rightarrow> bool" where
  "wf_db d =
     (distinct (map row_id (rows d)) \<and> list_all (\<lambda>r. row_id r < next_id d) (rows d)
      \<and> distinct (map row_tx_hash (rows d)))"

text \<open>
  \<open>r\<close> comes strictly before \<open>r'\<close> by \<open>score DESC, created_at ASC, id ASC\<close>, and by
  \<open>score DESC, created_at ASC\<close>.
\<close>

definition rank_less :: "row \<Rightarrow> row \<Rightarrow> bool" where
  "rank_less r r' =
     (row_score r' < row_score r
      \<or> (row_score r = row_score r'
          \<and> (row_created_at r < row_created_at r'
              \<or> (row_created_at r = row_created_at r' \<and> row_id r < row_id r'))))"

definition rank_less_v2 :: "row \<Rightarrow> row \<Rightarrow> bool" where
  "rank_less_v2 r r' =
     (row_score r' < row_score r
      \<or> (row_score r = row_score r' \<and> row_created_at r < row_created_at r'))"

text \<open>
  The runs of the first variant from the empty table, one request after the other,
  each in an environment of its own: \<open>history d H\<close> says that some sequence of requests
  leaves the table \<open>d\<close> and that \<open>H\<close> lists the rows that the accepted ones wrote.
\<close>

inductive history :: "db \<Rightarrow> row list \<Rightarrow> bool" where
  history_empty: "history \<lparr>rows = [], next_id = 1\<rparr> []"
| history_rejected:
    "history d H \<Longrightarrow> submitScore E d req = (d', resp) \<Longrightarrow> \<not> accepted resp \<Longrightarrow> history d' H"
| history_accepted:
    "history d H \<Longrightarrow> submitScore E d req = (d', resp) \<Longrightarrow> accepted resp \<Longrightarrow>
     submit_checks E d req = Inr (a, Fin (of_int k), t) \<Longrightarrow>
     history d' (H @ [new_row E d req a k t])"

section \<open>The route and its rate limiter\<close>

text \<open>
  \<^verbatim>\<open>
  const submitLimiter = rateLimit({
    windowMs: 60 * 1000,        // 1 minute
    max: 12,                    // 12 submits/min per key
    keyGenerator: (req) => {
      try {
        if (req.path === "/submitScore" && req.body && typeof req.body.address === "string") {
          return `addr:${req.body.address.toUpperCase()}`;
        }
      } catch {}
      return `ip:${req.ip}`; // fallback to IP
    },
    handler: (req, res) => {
      res.set("Retry-After", "60");
      return res.status(429).json({ ok: false, error: "rate_limited", message: ... });
    }
  });
  app.post("/submitScore", submitLimiter, async (req, res) => { ... });
  \<close>
  The limiter counts the requests of each key in the current window and lets the first
  12 of a key through.  Its state is the count of each key; the end of a window, which
  sets every count back to 0, is not part of the model, so a run of the route is a run
  within one minute.
\<close>

definition keyGenerator :: "request \<Rightarrow> string" where
  "keyGenerator req =
     (case body_address req of
        JStr s \<Rightarrow> ''addr:'' @ toUpperCase s
      | _ \<Rightarrow> ''ip:'' @ (case req_ip req of None \<Rightarrow> ''undefined'' | Some s \<Rightarrow> s))"

definition submitLimiter :: "(string \<Rightarrow> nat) \<Rightarrow> request \<Rightarrow> (string \<Rightarrow> nat) \<times> bool" where
  "submitLimiter hits req =
     (let k = keyGenerator req; n = hits k + 1 in (hits(k := n), n \<le> 12))"

text \<open>
  The route with either variant of the handler: the limiter first, the handler when
  the limiter lets the request through.
\<close>

definition route ::
  "(env \<Rightarrow> db \<Rightarrow> request \<Rightarrow> db \<times> response) \<Rightarrow> env \<Rightarrow> (string \<Rightarrow> nat) \<times> db \<Rightarrow> request
     \<Rightarrow> ((string \<Rightarrow> nat) \<times> db) \<times> response" where
  "route handler E s req =
     (case s of (hits, d) \<Rightarrow>
        (case submitLimiter hits req of
           (hits1, pass) \<Rightarrow>
             if \<not> pass then ((hits1, d), Resp 429 RateLimited)
             else (case handler E d req of (d1, resp) \<Rightarrow> ((hits1, d1), resp))))"

text \<open>A list of requests sent to the route one after the other.\<close>

fun routeAll ::
  "(env \<Rightarrow> db \<Rightarrow> request \<Rightarrow> db \<times> response) \<Rightarrow> env \<Rightarrow> (string \<Rightarrow> nat) \<times> db \<Rightarrow> request list
     \<Rightarrow> ((string \<Rightarrow> nat) \<times> db) \<times> response list" where
  "routeAll handler E s [] = (s, [])"
| "routeAll handler E s (req # reqs) =
     (case route handler E s req of
        (s1, resp) \<Rightarrow>
          (case routeAll handler E s1 reqs of (s2, resps) \<Rightarrow> (s2, resp # resps)))"

section \<open>The specification's wording\<close>

text \<open>
  The qualifying payment as the specification lists it: type, destination, asset code
  and issuer, amount, source.
\<close>

definition spec_qualifies :: "string \<Rightarrow> operation \<Rightarrow> bool" where
  "spec_qualifies addr o' =
     (op_type o' = JStr ''payment'' \<and>
      op_to o' = JStr TREASURY \<and>
      op_asset_code o' = JStr KALE_CODE \<and>
      op_asset_issuer o' = JStr KALE_ISSUER \<and>
      op_amount o' = JStr ''1.0000000'' \<and>
      op_from o' = JStr addr)"

text \<open>
  The memo rule as the specification words it: \<open>memo_type\<close> absent or equal to
  \<open>"none"\<close>.
\<close>

definition spec_memo_ok :: "jsval \<Rightarrow> bool" where
  "spec_memo_ok m = (m = JUndefined \<or> m = JStr ''none'')"

text \<open>
  The limit as the specification words it: 50 when the parameter is missing or not
  numeric (its coercion is NaN), and otherwise the parameter clamped to \<open>[1, 100]\<close>.
\<close>

definition spec_limit :: "jsnum \<Rightarrow> jsnum" where
  "spec_limit n = (if n = NaN then Fin 50 else Math_max (Fin 1) (Math_min n (Fin 100)))"

section \<open>A concrete run\<close>

text \<open>
  A player, a transaction \<open>T1\<close> created two minutes before the request with one
  payment of one KALE from the player to the treasury, and a request that claims it
  with the address in lower case and the score 42.5.
\<close>

definition ex_player :: string where
  "ex_player = ''GA2B3C4D5E6F7A2B3C4D5E6F7A2B3C4D5E6F7A2B3C4D5E6F7A2B3C4D''"

definition ex_pay :: operation where
  "ex_pay =
     \<lparr>op_type = JStr ''payment'', op_to = JStr TREASURY,
      op_asset_type = JStr ''credit_alphanum4'', op_asset_code = JStr KALE_CODE,
      op_asset_issuer = JStr KALE_ISSUER, op_amount = JStr ''1.0000000'',
      op_from = JStr ex_player\<rparr>"

definition ex_tx :: tx where
  "ex_tx =
     \<lparr>tx_successful = JBool True, tx_memo_type = JStr ''none'',
      tx_created_at = JStr ''2026-01-01T00:00:00Z''\<rparr>"

definition ex_env :: env where
  "ex_env =
     \<lparr>Date_now = 1767225720000,
      Date_getTime = (\<lambda>v. if v = JStr ''2026-01-01T00:00:00Z'' then Some 1767225600000 else None),
      fetch_tx = (\<lambda>h. Response 200 (Some ex_tx)),
      fetch_ops = (\<lambda>h. Response 200 (Some (Some [ex_pay]))),
      pg_now = 1767225720000000,
      other_String = (\<lambda>v. []),
      other_param = (\<lambda>v. []),
      pg_scan = (\<lambda>rs. rs)\<rparr>"

definition ex_req :: request where
  "ex_req =
     \<lparr>body_txHash = JStr ''T1'',
      body_address = JStr ''ga2b3c4d5e6f7a2b3c4d5e6f7a2b3c4d5e6f7a2b3c4d5e6f7a2b3c4d'',
      body_score = JNum (Fin 42.5), req_ip = Some ''10.0.0.1'', req_ua = None\<rparr>"

definition ex_db :: db where
  "ex_db = \<lparr>rows = [], next_id = 1\<rparr>"

text \<open>The table in which \<open>T1\<close> has been stored by another request.\<close>

definition ex_db_T1 :: db where
  "ex_db_T1 =
     \<lparr>rows = [\<lparr>row_id = 1, row_address = ex_player, row_score = 7,
               row_tx_hash = ''T1'', row_paid_at = JStr ''2026-01-01T00:00:00Z'',
               row_created_at = 1767225660000000, row_ip = None, row_ua = None\<rparr>],
      next_id = 2\<rparr>"

text \<open>The same transaction with the empty string for \<open>memo_type\<close>.\<close>

definition ex_env_memo :: env where
  "ex_env_memo = ex_env\<lparr>fetch_tx := (\<lambda>h. Response 200 (Some (ex_tx\<lparr>tx_memo_type := JStr []\<rparr>)))\<rparr>"

text \<open>
  The same transaction with a second operation: the payment once more, without the
  field \<open>asset_type\<close>.
\<close>

definition ex_ops2 :: "operation list" where
  "ex_ops2 = [ex_pay, ex_pay\<lparr>op_asset_type := JUndefined\<rparr>]"

definition ex_env_ops2 :: env where
  "ex_env_ops2 = ex_env\<lparr>fetch_ops := (\<lambda>h. Response 200 (Some (Some ex_ops2)))\<rparr>"

text \<open>A failed transaction with no operations.\<close>

definition ex_env_failed :: env where
  "ex_env_failed =
     ex_env\<lparr>fetch_tx := (\<lambda>h. Response 200 (Some (ex_tx\<lparr>tx_successful := JBool False\<rparr>))),
             fetch_ops := (\<lambda>h. Response 200 (Some (Some [])))\<rparr>"

text \<open>
  A series of players and of requests: player \<open>i\<close> (below 1024) has an address of its
  own, pays in a transaction with a hash of its own, and claims the score 42.5.  All
  requests come within one minute, at the clock of \<open>ex_env\<close>.
\<close>

definition ex_hash :: "nat \<Rightarrow> string" where
  "ex_hash i = replicate (Suc i) (CHR ''T'')"

definition ex_addr :: "nat \<Rightarrow> string" where
  "ex_addr i =
     ''G'' @ replicate 53 (CHR ''A'')
       @ [''ABCDEFGHIJKLMNOPQRSTUVWXYZ234567'' ! (i div 32),
          ''ABCDEFGHIJKLMNOPQRSTUVWXYZ234567'' ! (i mod 32)]"

definition ex_req_n :: "nat \<Rightarrow> request" where
  "ex_req_n i = ex_req\<lparr>body_txHash := JStr (ex_hash i), body_address := JStr (ex_addr i)\<rparr>"

definition ex_env_series :: env where
  "ex_env_series =
     ex_env\<lparr>fetch_ops :=
       (\<lambda>h. case h of
              JStr s \<Rightarrow> Response 200 (Some (Some [ex_pay\<lparr>op_from := JStr (ex_addr (length s - 1))\<rparr>]))
            | _ \<Rightarrow> Response 404 None)\<rparr>"

text \<open>The row that request \<open>i\<close> of the series writes when the \<open>i\<close> before it were accepted.\<close>

definition ex_series_row :: "nat \<Rightarrow> row" where
  "ex_series_row i =
     \<lparr>row_id = int i + 1, row_address = ex_addr i, row_score = 42,
      row_tx_hash = ex_hash i, row_paid_at = JStr ''2026-01-01T00:00:00Z'',
      row_created_at = 1767225720000000, row_ip = Some ''10.0.0.1'', row_ua = None\<rparr>"

text \<open>
  The first 101 requests of the series sent to the route from the empty table, with no
  request counted by the limiter yet: to the variant that prunes, and to the variant
  that does not.
\<close>

definition ex_run :: "((string \<Rightarrow> nat) \<times> db) \<times> response list" where
  "ex_run = routeAll submitScore ex_env_series (\<lambda>k. 0, ex_db) (map ex_req_n [0..<101])"

definition ex_run_v2 :: "((string \<Rightarrow> nat) \<times> db) \<times> response list" where
  "ex_run_v2 = routeAll submitScore_v2 ex_env_series (\<lambda>k. 0, ex_db) (map ex_req_n [0..<101])"

text \<open>
  A full table: 100 rows with the score 1000, holding the hashes of the series.
\<close>

definition ex_row :: "nat \<Rightarrow> row" where
  "ex_row i =
     \<lparr>row_id = int i + 1, row_address = ex_player, row_score = 1000,
      row_tx_hash = ex_hash i, row_paid_at = JStr ''2026-01-01T00:00:00Z'',
      row_created_at = int i, row_ip = None, row_ua = None\<rparr>"

definition ex_db_full :: db where
  "ex_db_full = \<lparr>rows = map ex_row [0..<100], next_id = 101\<rparr>"

text \<open>
  A table of three rows, stored in another order than they rank; and a table of two
  rows with the same score and the same \<open>created_at\<close>, read by a database that
  returns the later row first.
\<close>

definition ex_row3 :: "int \<Rightarrow> int \<Rightarrow> int \<Rightarrow> row" where
  "ex_row3 i s c =
     \<lparr>row_id = i, row_address = ex_player, row_score = s,
      row_tx_hash = ex_hash (nat i), row_paid_at = JStr ''2026-01-01T00:00:00Z'',
      row_created_at = c, row_ip = None, row_ua = None\<rparr>"

definition ex_db_3 :: db where
  "ex_db_3 = \<lparr>rows = [ex_row3 1 5 10, ex_row3 2 9 30, ex_row3 3 9 20], next_id = 4\<rparr>"

definition ex_db_tie :: db where
  "ex_db_tie = \<lparr>rows = [ex_row3 1 9 20, ex_row3 2 9 20], next_id = 3\<rparr>"

definition ex_env_rev :: env where
  "ex_env_rev = ex_env\<lparr>pg_scan := rev\<rparr>"

section \<open>Properties\<close>

subsection \<open>clampScore\<close>

lemma clampScore_cases:
  "clampScore r =
     (case r of
        Fin x \<Rightarrow> if x < 0 then Fin 0 else Fin (of_int (min \<lfloor>x\<rfloor> 1000000000))
      | _ \<Rightarrow> Fin 0)"
proof (cases r)
  case (Fin x)
  have neg: "(of_int \<lfloor>x\<rfloor> < (0::real)) = (x < 0)"
    by (simp add: floor_less_iff)
  have big: "((1000000000::real) < of_int \<lfloor>x\<rfloor>) = (1000000000 < \<lfloor>x\<rfloor>)"
    by (metis of_int_less_iff of_int_numeral)
  show ?thesis
    using Fin by (simp add: clampScore_def neg big min_def)
qed (simp_all add: clampScore_def)

lemma clampScore_int:
  "\<exists>k. clampScore r = Fin (of_int k) \<and> 0 \<le> k \<and> k \<le> 1000000000"
proof (cases r)
  case (Fin x)
  show ?thesis
  proof (cases "x < 0")
    case True
    with Fin have "clampScore r = Fin (of_int 0)"
      by (simp add: clampScore_cases)
    then show ?thesis by (intro exI [of _ 0]) simp
  next
    case False
    then have "0 \<le> \<lfloor>x\<rfloor>" by simp
    moreover from Fin False have "clampScore r = Fin (of_int (min \<lfloor>x\<rfloor> 1000000000))"
      by (simp add: clampScore_cases)
    ultimately show ?thesis
      by (intro exI [of _ "min \<lfloor>x\<rfloor> 1000000000"]) simp
  qed
next
  case PosInf
  then have "clampScore r = Fin (of_int 0)" by (simp add: clampScore_cases)
  then show ?thesis by (intro exI [of _ 0]) simp
next
  case NegInf
  then have "clampScore r = Fin (of_int 0)" by (simp add: clampScore_cases)
  then show ?thesis by (intro exI [of _ 0]) simp
next
  case NaN
  then have "clampScore r = Fin (of_int 0)" by (simp add: clampScore_cases)
  then show ?thesis by (intro exI [of _ 0]) simp
qed

text \<open>
  C6.  \<open>clampScore\<close> is defined on every number: on a finite \<open>x\<close> it is \<open>0\<close> when \<open>x\<close>
  (and so its floor) is negative and otherwise the smaller of \<open>\<lfloor>x\<rfloor>\<close> and
  \<open>1,000,000,000\<close>; on NaN and on the two infinities it is \<open>0\<close>.  The result is always
  an integer between \<open>0\<close> and \<open>1,000,000,000\<close>.
\<close>

theorem clampScore_total_bounded:
  "clampScore r =
     (case r of
        Fin x \<Rightarrow> if \<lfloor>x\<rfloor> < 0 then Fin 0 else Fin (of_int (min \<lfloor>x\<rfloor> 1000000000))
      | _ \<Rightarrow> Fin 0)
   \<and> (\<exists>k. clampScore r = Fin (of_int k) \<and> 0 \<le> k \<and> k \<le> 1000000000)
   \<and> (\<not> Number_isFinite r \<longrightarrow> clampScore r = Fin 0)"
proof (intro conjI)
  show "clampScore r =
     (case r of
        Fin x \<Rightarrow> if \<lfloor>x\<rfloor> < 0 then Fin 0 else Fin (of_int (min \<lfloor>x\<rfloor> 1000000000))
      | _ \<Rightarrow> Fin 0)"
    by (cases r) (simp_all add: clampScore_cases floor_less_iff)
  show "\<exists>k. clampScore r = Fin (of_int k) \<and> 0 \<le> k \<and> k \<le> 1000000000"
    by (rule clampScore_int)
  show "\<not> Number_isFinite r \<longrightarrow> clampScore r = Fin 0"
    by (cases r) (simp_all add: clampScore_cases)
qed

theorem clampScore_total_bounded_witness:
  "clampScore (Fin 42.5) = Fin 42 \<and> clampScore (Fin (-3)) = Fin 0
   \<and> clampScore (Fin 5000000000) = Fin 1000000000
   \<and> \<not> Number_isFinite PosInf \<and> clampScore PosInf = Fin 0"
  using clampScore_total_bounded [of "Fin 42.5"] clampScore_total_bounded [of "Fin (-3)"]
    clampScore_total_bounded [of "Fin 5000000000"] clampScore_total_bounded [of PosInf]
  by simp

subsection \<open>isRecent\<close>

text \<open>
  C9.  The recency check is one-sided.  \<open>isRecent(t, 30)\<close> is true whenever the time
  value of \<open>t\<close> is at most 30 minutes (1,800,000 ms) before now, and so for every time
  in the future, by any margin; it is false only when the time value is more than 30
  minutes in the past or the date does not parse (its time value is NaN).
\<close>

theorem isRecent_one_sided:
  "(Date_getTime E v = Some t \<and> Date_now E - t \<le> 1800000 \<longrightarrow> isRecent E v 30)
   \<and> (Date_getTime E v = Some t \<and> Date_now E < t \<longrightarrow> isRecent E v 30)
   \<and> (\<not> isRecent E v 30 \<longrightarrow>
         Date_getTime E v = None \<or> (\<exists>t'. Date_getTime E v = Some t' \<and> 1800000 < Date_now E - t'))"
  by (auto simp: isRecent_def split: option.splits)

theorem isRecent_one_sided_witness:
  "Date_getTime ex_env (JStr ''2026-01-01T00:00:00Z'') = Some 1767225600000
   \<and> Date_now ex_env - 1767225600000 \<le> 1800000
   \<and> isRecent ex_env (JStr ''2026-01-01T00:00:00Z'') 30
   \<and> Date_now (ex_env\<lparr>Date_now := 0\<rparr>) < 1767225600000
   \<and> isRecent (ex_env\<lparr>Date_now := 0\<rparr>) (JStr ''2026-01-01T00:00:00Z'') 30
   \<and> \<not> isRecent (ex_env\<lparr>Date_now := 1767229200001\<rparr>) (JStr ''2026-01-01T00:00:00Z'') 30
   \<and> Date_getTime ex_env (JStr ''yesterday'') = None
   \<and> \<not> isRecent ex_env (JStr ''yesterday'') 30"
  using isRecent_one_sided [of ex_env "JStr ''2026-01-01T00:00:00Z''" 1767225600000]
    isRecent_one_sided [of "ex_env\<lparr>Date_now := 0\<rparr>" "JStr ''2026-01-01T00:00:00Z''" 1767225600000]
    isRecent_one_sided [of "ex_env\<lparr>Date_now := 1767229200001\<rparr>" "JStr ''2026-01-01T00:00:00Z''" 0]
    isRecent_one_sided [of ex_env "JStr ''yesterday''" 0]
  by (simp add: ex_env_def isRecent_def)

subsection \<open>The steps of the handler\<close>

lemma submit_checks_Inr_iff:
  "submit_checks E d req = Inr (a, n, t) \<longleftrightarrow>
     truthy (body_txHash req) \<and> truthy (body_address req) \<and> typeof_number (body_score req) \<and>
     a = toUpperCase (String_js E (body_address req)) \<and> valid_address a \<and>
     \<not> txAlreadyUsed E d (body_txHash req) \<and>
     n = clampScore (num_of (body_score req)) \<and>
     getJson (fetch_tx E (body_txHash req)) = Inr t \<and>
     tx_successful t = JBool True \<and>
     \<not> (truthy (tx_memo_type t) \<and> tx_memo_type t \<noteq> JStr ''none'') \<and>
     isRecent E (tx_created_at t) 30 \<and>
     (\<exists>p. getJson (fetch_ops E (body_txHash req)) = Inr p \<and>
          length (filter (validPay a) (case p of None \<Rightarrow> [] | Some rs \<Rightarrow> rs)) = 1)"
  by (auto simp: submit_checks_def Let_def split: sum.splits if_splits)

lemma pg_bigint_of_int:
  "- (2 ^ 63) \<le> k \<Longrightarrow> k < 2 ^ 63 \<Longrightarrow> pg_bigint (Fin (of_int k)) = Some k"
  by (simp add: pg_bigint_def)

lemma txAlreadyUsed_iff:
  "txAlreadyUsed E d h \<longleftrightarrow> pg_text E h \<in> set (map row_tx_hash (rows d))"
  by (force simp: txAlreadyUsed_def filter_empty_conv)

lemma sorted_ranked: "sorted (map rank_key (ranked rs))"
  by (simp add: ranked_def)

lemma mset_ranked: "mset (ranked rs) = mset rs"
  by (simp add: ranked_def)

lemma set_ranked: "set (ranked rs) = set rs"
  by (simp add: ranked_def)

lemma length_ranked: "length (ranked rs) = length rs"
  by (simp add: ranked_def)

lemma filter_take_distinct:
  assumes "distinct (map f xs)"
  shows "filter (\<lambda>x. f x \<in> set (map f (take n xs))) xs = take n xs"
proof -
  have xs: "xs = take n xs @ drop n xs" by simp
  from assms have d: "distinct (map f (take n xs) @ map f (drop n xs))"
    by (metis append_take_drop_id map_append)
  have a: "filter (\<lambda>x. f x \<in> set (map f (take n xs))) (take n xs) = take n xs"
    by (rule filter_True) simp
  have b: "filter (\<lambda>x. f x \<in> set (map f (take n xs))) (drop n xs) = []"
    using d by (auto simp: filter_empty_conv)
  have "filter (\<lambda>x. f x \<in> set (map f (take n xs))) xs =
      filter (\<lambda>x. f x \<in> set (map f (take n xs))) (take n xs)
      @ filter (\<lambda>x. f x \<in> set (map f (take n xs))) (drop n xs)"
    by (metis append_take_drop_id filter_append)
  then show ?thesis using a b by simp
qed

lemma distinct_ids_ranked:
  "distinct (map row_id rs) \<Longrightarrow> distinct (map row_id (ranked rs))"
proof -
  assume "distinct (map row_id rs)"
  moreover have "mset (map row_id (ranked rs)) = mset (map row_id rs)"
    by (simp add: mset_ranked)
  ultimately show ?thesis
    by (metis mset_eq_imp_distinct_iff)
qed

lemma ranked_filter: "ranked (filter P rs) = filter P (ranked rs)"
  by (simp add: ranked_def filter_sort)

lemma ranked_prune:
  assumes "distinct (map row_id (rows d))"
  shows "ranked (rows (prune d)) = take 100 (ranked (rows d))"
proof -
  have "ranked (rows (prune d)) =
      filter (\<lambda>r. row_id r \<in> set (map row_id (take 100 (ranked (rows d))))) (ranked (rows d))"
    by (simp add: prune_def ranked_filter)
  also have "\<dots> = take 100 (ranked (rows d))"
    using assms by (intro filter_take_distinct distinct_ids_ranked)
  finally show ?thesis .
qed

lemma sorted_take_drop_less:
  assumes "sorted (map f xs)" "distinct (map f xs)" "x \<in> set (take n xs)" "y \<in> set (drop n xs)"
  shows "f x < f y"
proof -
  have "sorted (map f (take n xs) @ map f (drop n xs))"
    using assms(1) by (metis append_take_drop_id map_append)
  then have "f x \<le> f y"
    using assms(3,4) by (auto simp: sorted_append)
  moreover have "distinct (map f (take n xs) @ map f (drop n xs))"
    using assms(2) by (metis append_take_drop_id map_append)
  then have "f x \<noteq> f y"
    using assms(3,4) by auto
  ultimately show ?thesis by simp
qed


lemma insert_score_clamped:
  assumes "clampScore x = Fin (of_int k)" "0 \<le> k" "k \<le> 1000000000"
  shows "insert_score chk E d a (clampScore x) h paid ip ua =
     (if pg_text E h \<in> set (map row_tx_hash (rows d))
      then (d\<lparr>next_id := next_id d + 1\<rparr>, Some UniqueViolation)
      else (d\<lparr>next_id := next_id d + 1,
               rows := rows d @ [\<lparr>row_id = next_id d, row_address = a, row_score = k,
                  row_tx_hash = pg_text E h, row_paid_at = paid,
                  row_created_at = pg_now E, row_ip = ip, row_ua = ua\<rparr>]\<rparr>, None))"
proof -
  have "pg_bigint (Fin (of_int k)) = Some k"
    using assms(2,3) by (intro pg_bigint_of_int) simp_all
  then show ?thesis
    using assms by (simp add: insert_score_def Let_def)
qed

lemma topN_10: "topN d (Fin 10) = Inr (map project (take 10 (ranked (rows d))))"
  by (simp add: topN_def pg_limit_def)

lemma submitScore_at_Inr:
  assumes chk: "submit_checks E d0 req = Inr (a, n, t)"
  shows "\<exists>k. n = Fin (of_int k) \<and> 0 \<le> k \<and> k \<le> 1000000000 \<and>
     submitScore_at E d0 d req =
       (if pg_text E (body_txHash req) \<in> set (map row_tx_hash (rows d))
        then (d\<lparr>next_id := next_id d + 1\<rparr>, Resp 500 (ErrorMessage UniqueViolation))
        else (prune (d\<lparr>next_id := next_id d + 1, rows := rows d @ [new_row E d req a k t]\<rparr>),
              Resp 200 (Top10 (map project (take 10 (ranked (rows
                (prune (d\<lparr>next_id := next_id d + 1, rows := rows d @ [new_row E d req a k t]\<rparr>)))))))))"
proof -
  from chk have n: "n = clampScore (num_of (body_score req))"
    by (simp add: submit_checks_Inr_iff)
  obtain k where k: "n = Fin (of_int k)" "0 \<le> k" "k \<le> 1000000000"
    using clampScore_int n by blast
  have ins: "insert_score True E d a n (body_txHash req) (tx_created_at t)
        (or_null (req_ip req)) (or_null (req_ua req)) =
     (if pg_text E (body_txHash req) \<in> set (map row_tx_hash (rows d))
      then (d\<lparr>next_id := next_id d + 1\<rparr>, Some UniqueViolation)
      else (d\<lparr>next_id := next_id d + 1, rows := rows d @ [new_row E d req a k t]\<rparr>, None))"
    using insert_score_clamped [of "num_of (body_score req)" k] k n
    by (simp add: new_row_def)
  show ?thesis
    using k chk ins by (intro exI [of _ k]) (simp add: submitScore_at_def Let_def topN_10)
qed

lemma submitScore_v2_at_Inr:
  assumes chk: "submit_checks E d0 req = Inr (a, n, t)"
  shows "\<exists>k. n = Fin (of_int k) \<and> 0 \<le> k \<and> k \<le> 1000000000 \<and>
     submitScore_v2_at E d0 d req =
       (if pg_text E (body_txHash req) \<in> set (map row_tx_hash (rows d))
        then (d\<lparr>next_id := next_id d + 1\<rparr>, Resp 500 (ErrorMessage UniqueViolation))
        else (d\<lparr>next_id := next_id d + 1, rows := rows d @ [new_row E d req a k t]\<rparr>,
              Resp 200 (Top10 (map project (take 10 (ranked_v2 E (rows d @ [new_row E d req a k t])))))))"
proof -
  from chk have n: "n = clampScore (num_of (body_score req))"
    by (simp add: submit_checks_Inr_iff)
  obtain k where k: "n = Fin (of_int k)" "0 \<le> k" "k \<le> 1000000000"
    using clampScore_int n by blast
  have ins: "insert_score False E d a n (body_txHash req) (tx_created_at t)
        (or_null (req_ip req)) (or_null (req_ua req)) =
     (if pg_text E (body_txHash req) \<in> set (map row_tx_hash (rows d))
      then (d\<lparr>next_id := next_id d + 1\<rparr>, Some UniqueViolation)
      else (d\<lparr>next_id := next_id d + 1, rows := rows d @ [new_row E d req a k t]\<rparr>, None))"
    using insert_score_clamped [of "num_of (body_score req)" k] k n
    by (simp add: new_row_def)
  show ?thesis
    using k chk ins by (intro exI [of _ k]) (simp add: submitScore_v2_at_def Let_def)
qed

lemma submit_checks_not_200: "submit_checks E d0 req \<noteq> Inl (Resp 200 b)"
  by (auto simp: submit_checks_def Let_def split: sum.splits if_splits option.splits)



subsection \<open>A duplicate at the INSERT\<close>

lemma ex_checks: "submit_checks ex_env ex_db ex_req = Inr (ex_player, Fin 42, ex_tx)"
  by (simp add: submit_checks_def ex_env_def ex_db_def ex_req_def ex_player_def valid_address_def base32_char_def
    toUpperCase_def upper_char_def txAlreadyUsed_def clampScore_def getJson_def ex_tx_def isRecent_def ex_pay_def validPay_def
    TREASURY_def KALE_CODE_def KALE_ISSUER_def)

lemma ex_req_fields:
  "body_txHash ex_req = JStr ''T1''" "req_ip ex_req = Some ''10.0.0.1''" "req_ua ex_req = None"
  "body_score ex_req = JNum (Fin 42.5)"
  by (simp_all add: ex_req_def)

text \<open>
  C1 (as amended).  When the handler reaches the INSERT and the table then holds a row
  with the same \<open>tx_hash\<close>, the database refuses the row, the exception goes to the
  handler's only \<open>catch\<close>, and the response is status 500 with the error's message,
  in both variants; the table keeps its rows.
\<close>

theorem unique_violation_is_500:
  assumes "submit_checks E d0 req = Inr (a, n, t)"
    and "pg_text E (body_txHash req) \<in> set (map row_tx_hash (rows d))"
  shows "submitScore_at E d0 d req = (d\<lparr>next_id := next_id d + 1\<rparr>, Resp 500 (ErrorMessage UniqueViolation))
    \<and> submitScore_v2_at E d0 d req = (d\<lparr>next_id := next_id d + 1\<rparr>, Resp 500 (ErrorMessage UniqueViolation))"
  using submitScore_at_Inr [OF assms(1), of d] submitScore_v2_at_Inr [OF assms(1), of d] assms(2)
  by auto

theorem unique_violation_is_500_witness:
  "submit_checks ex_env ex_db ex_req = Inr (ex_player, Fin 42, ex_tx)
   \<and> pg_text ex_env (body_txHash ex_req) \<in> set (map row_tx_hash (rows ex_db_T1))
   \<and> submitScore_at ex_env ex_db ex_db_T1 ex_req
        = (ex_db_T1\<lparr>next_id := 3\<rparr>, Resp 500 (ErrorMessage UniqueViolation))"
proof -
  have h: "pg_text ex_env (body_txHash ex_req) \<in> set (map row_tx_hash (rows ex_db_T1))"
    by (simp add: ex_req_def ex_db_T1_def)
  show ?thesis
    using unique_violation_is_500 [OF ex_checks h] ex_checks h by (simp add: ex_db_T1_def)
qed

text \<open>
  C1 (as stated) fails: the request for \<open>T1\<close> passes the replay check on the empty
  table, another request stores \<open>T1\<close> meanwhile, the INSERT is refused for the
  uniqueness of \<open>tx_hash\<close>, and the response is 500 and not 409.
\<close>

theorem unique_violation_not_409:
  "fst (insert_score True ex_env ex_db_T1 ex_player (Fin 42) (JStr ''T1'') (JStr ''2026-01-01T00:00:00Z'') (Some ''10.0.0.1'') None) = ex_db_T1\<lparr>next_id := 3\<rparr>
   \<and> snd (insert_score True ex_env ex_db_T1 ex_player (Fin 42) (JStr ''T1'') (JStr ''2026-01-01T00:00:00Z'') (Some ''10.0.0.1'') None) = Some UniqueViolation
   \<and> snd (submitScore_at ex_env ex_db ex_db_T1 ex_req) = Resp 500 (ErrorMessage UniqueViolation)
   \<and> snd (submitScore_at ex_env ex_db ex_db_T1 ex_req) \<noteq> Resp 409 (Text ''tx already used'')
   \<and> snd (submitScore_v2_at ex_env ex_db ex_db_T1 ex_req) = Resp 500 (ErrorMessage UniqueViolation)"
  by (simp add: submitScore_at_def submitScore_v2_at_def ex_checks ex_req_fields insert_score_def
      pg_bigint_def ex_db_T1_def Let_def)

subsection \<open>The stored score\<close>

lemma submitScore_200D:
  assumes "submitScore E d req = (d', Resp 200 b)"
  shows "\<exists>a k t. submit_checks E d req = Inr (a, Fin (of_int k), t) \<and> 0 \<le> k \<and> k \<le> 1000000000
      \<and> pg_text E (body_txHash req) \<notin> set (map row_tx_hash (rows d))
      \<and> d' = prune (d\<lparr>next_id := next_id d + 1, rows := rows d @ [new_row E d req a k t]\<rparr>)
      \<and> b = Top10 (map project (take 10 (ranked (rows d'))))"
proof (cases "submit_checks E d req")
  case (Inl resp)
  with assms show ?thesis
    using submit_checks_not_200 [of E d req b] by (simp add: submitScore_def submitScore_at_def)
next
  case (Inr p)
  obtain a n t where p: "p = (a, n, t)" by (cases p)
  from submitScore_at_Inr [OF Inr [unfolded p], of d] assms show ?thesis
    unfolding submitScore_def using Inr p by (auto split: if_splits)
qed

lemma submitScore_v2_200D:
  assumes "submitScore_v2 E d req = (d', Resp 200 b)"
  shows "\<exists>a k t. submit_checks E d req = Inr (a, Fin (of_int k), t) \<and> 0 \<le> k \<and> k \<le> 1000000000
      \<and> pg_text E (body_txHash req) \<notin> set (map row_tx_hash (rows d))
      \<and> d' = d\<lparr>next_id := next_id d + 1, rows := rows d @ [new_row E d req a k t]\<rparr>
      \<and> b = Top10 (map project (take 10 (ranked_v2 E (rows d'))))"
proof (cases "submit_checks E d req")
  case (Inl resp)
  with assms show ?thesis
    using submit_checks_not_200 [of E d req b] by (simp add: submitScore_v2_def submitScore_v2_at_def)
next
  case (Inr p)
  obtain a n t where p: "p = (a, n, t)" by (cases p)
  from submitScore_v2_at_Inr [OF Inr [unfolded p], of d] assms show ?thesis
    unfolding submitScore_v2_def using Inr p by (auto split: if_splits)
qed

lemma ex_submit:
  "submitScore ex_env ex_db ex_req =
     (\<lparr>rows = [new_row ex_env ex_db ex_req ex_player 42 ex_tx], next_id = 2\<rparr>,
      Resp 200 (Top10 [project (new_row ex_env ex_db ex_req ex_player 42 ex_tx)]))"
proof -
  have "pg_text ex_env (body_txHash ex_req) \<notin> set (map row_tx_hash (rows ex_db))"
    by (simp add: ex_db_def)
  then show ?thesis
    using submitScore_at_Inr [OF ex_checks, of ex_db]
    by (simp add: submitScore_def ex_db_def prune_def ranked_def)
qed

text \<open>
  C7.  When a submission is accepted, the INSERT has written one row, and its score is
  \<open>clampScore\<close> of the \<open>score\<close> of the request (a number, by the shape check); this
  in both variants.  In the first the table is then pruned.
\<close>

theorem stored_score_is_clamped:
  "(submitScore E d req = (d', Resp 200 b) \<longrightarrow>
      (\<exists>x a (t::tx) d1 r.
          body_score req = JNum x
        \<and> insert_score True E d a (clampScore x) (body_txHash req) (tx_created_at t)
              (or_null (req_ip req)) (or_null (req_ua req)) = (d1, None)
        \<and> rows d1 = rows d @ [r] \<and> Fin (of_int (row_score r)) = clampScore x
        \<and> d' = prune d1))
   \<and> (submitScore_v2 E d req = (d', Resp 200 b) \<longrightarrow>
      (\<exists>x a (t::tx) r.
          body_score req = JNum x
        \<and> insert_score False E d a (clampScore x) (body_txHash req) (tx_created_at t)
              (or_null (req_ip req)) (or_null (req_ua req)) = (d', None)
        \<and> rows d' = rows d @ [r] \<and> Fin (of_int (row_score r)) = clampScore x))"
proof (intro conjI impI)
  assume ok: "submitScore E d req = (d', Resp 200 b)"
  from submitScore_200D [OF ok] obtain a k t where
    chk: "submit_checks E d req = Inr (a, Fin (of_int k), t)" and k: "0 \<le> k" "k \<le> 1000000000"
    and fresh: "pg_text E (body_txHash req) \<notin> set (map row_tx_hash (rows d))"
    and d': "d' = prune (d\<lparr>next_id := next_id d + 1, rows := rows d @ [new_row E d req a k t]\<rparr>)"
    by blast
  from chk have num: "typeof_number (body_score req)"
    and cl: "Fin (of_int k) = clampScore (num_of (body_score req))"
    by (simp_all add: submit_checks_Inr_iff)
  from num obtain x where x: "body_score req = JNum x"
    by (cases "body_score req") simp_all
  from cl x have clx: "clampScore x = Fin (of_int k)" by simp
  have ins: "insert_score True E d a (clampScore x) (body_txHash req) (tx_created_at t)
        (or_null (req_ip req)) (or_null (req_ua req))
      = (d\<lparr>next_id := next_id d + 1, rows := rows d @ [new_row E d req a k t]\<rparr>, None)"
    using insert_score_clamped [OF clx k] fresh by (simp add: new_row_def)
  show "\<exists>x a (t::tx) d1 r.
          body_score req = JNum x
        \<and> insert_score True E d a (clampScore x) (body_txHash req) (tx_created_at t)
              (or_null (req_ip req)) (or_null (req_ua req)) = (d1, None)
        \<and> rows d1 = rows d @ [r] \<and> Fin (of_int (row_score r)) = clampScore x
        \<and> d' = prune d1"
  proof (intro exI conjI)
    show "body_score req = JNum x" by (rule x)
    show "insert_score True E d a (clampScore x) (body_txHash req) (tx_created_at t)
              (or_null (req_ip req)) (or_null (req_ua req))
        = (d\<lparr>next_id := next_id d + 1, rows := rows d @ [new_row E d req a k t]\<rparr>, None)"
      by (rule ins)
    show "rows (d\<lparr>next_id := next_id d + 1, rows := rows d @ [new_row E d req a k t]\<rparr>)
        = rows d @ [new_row E d req a k t]" by simp
    show "Fin (of_int (row_score (new_row E d req a k t))) = clampScore x"
      using clx by (simp add: new_row_def)
    show "d' = prune (d\<lparr>next_id := next_id d + 1, rows := rows d @ [new_row E d req a k t]\<rparr>)"
      by (rule d')
  qed
next
  assume ok: "submitScore_v2 E d req = (d', Resp 200 b)"
  from submitScore_v2_200D [OF ok] obtain a k t where
    chk: "submit_checks E d req = Inr (a, Fin (of_int k), t)" and k: "0 \<le> k" "k \<le> 1000000000"
    and fresh: "pg_text E (body_txHash req) \<notin> set (map row_tx_hash (rows d))"
    and d': "d' = d\<lparr>next_id := next_id d + 1, rows := rows d @ [new_row E d req a k t]\<rparr>"
    by blast
  from chk have num: "typeof_number (body_score req)"
    and cl: "Fin (of_int k) = clampScore (num_of (body_score req))"
    by (simp_all add: submit_checks_Inr_iff)
  from num obtain x where x: "body_score req = JNum x"
    by (cases "body_score req") simp_all
  from cl x have clx: "clampScore x = Fin (of_int k)" by simp
  have ins: "insert_score False E d a (clampScore x) (body_txHash req) (tx_created_at t)
        (or_null (req_ip req)) (or_null (req_ua req))
      = (d\<lparr>next_id := next_id d + 1, rows := rows d @ [new_row E d req a k t]\<rparr>, None)"
    using insert_score_clamped [OF clx k] fresh by (simp add: new_row_def)
  show "\<exists>x a (t::tx) r.
          body_score req = JNum x
        \<and> insert_score False E d a (clampScore x) (body_txHash req) (tx_created_at t)
              (or_null (req_ip req)) (or_null (req_ua req)) = (d', None)
        \<and> rows d' = rows d @ [r] \<and> Fin (of_int (row_score r)) = clampScore x"
  proof (intro exI conjI)
    show "body_score req = JNum x" by (rule x)
    show "insert_score False E d a (clampScore x) (body_txHash req) (tx_created_at t)
              (or_null (req_ip req)) (or_null (req_ua req)) = (d', None)"
      using ins d' by simp
    show "rows d' = rows d @ [new_row E d req a k t]" using d' by simp
    show "Fin (of_int (row_score (new_row E d req a k t))) = clampScore x"
      using clx by (simp add: new_row_def)
  qed
qed


lemma ex_submit_v2:
  "submitScore_v2 ex_env ex_db ex_req =
     (\<lparr>rows = [new_row ex_env ex_db ex_req ex_player 42 ex_tx], next_id = 2\<rparr>,
      Resp 200 (Top10 [project (new_row ex_env ex_db ex_req ex_player 42 ex_tx)]))"
proof -
  have "pg_text ex_env (body_txHash ex_req) \<notin> set (map row_tx_hash (rows ex_db))"
    by (simp add: ex_db_def)
  then show ?thesis
    using submitScore_v2_at_Inr [OF ex_checks, of ex_db]
    by (simp add: submitScore_v2_def ex_db_def ranked_v2_def ex_env_def)
qed

theorem stored_score_is_clamped_witness:
  "submitScore ex_env ex_db ex_req =
     (\<lparr>rows = [new_row ex_env ex_db ex_req ex_player 42 ex_tx], next_id = 2\<rparr>,
      Resp 200 (Top10 [project (new_row ex_env ex_db ex_req ex_player 42 ex_tx)]))
   \<and> submitScore_v2 ex_env ex_db ex_req =
     (\<lparr>rows = [new_row ex_env ex_db ex_req ex_player 42 ex_tx], next_id = 2\<rparr>,
      Resp 200 (Top10 [project (new_row ex_env ex_db ex_req ex_player 42 ex_tx)]))
   \<and> body_score ex_req = JNum (Fin 42.5)
   \<and> row_score (new_row ex_env ex_db ex_req ex_player 42 ex_tx) = 42
   \<and> (\<exists>x a (t::tx) d1 r.
          body_score ex_req = JNum x
        \<and> insert_score True ex_env ex_db a (clampScore x) (body_txHash ex_req) (tx_created_at t)
              (or_null (req_ip ex_req)) (or_null (req_ua ex_req)) = (d1, None)
        \<and> rows d1 = rows ex_db @ [r] \<and> Fin (of_int (row_score r)) = clampScore x
        \<and> \<lparr>rows = [new_row ex_env ex_db ex_req ex_player 42 ex_tx], next_id = 2\<rparr> = prune d1)"
proof -
  have "\<exists>x a (t::tx) d1 r.
          body_score ex_req = JNum x
        \<and> insert_score True ex_env ex_db a (clampScore x) (body_txHash ex_req) (tx_created_at t)
              (or_null (req_ip ex_req)) (or_null (req_ua ex_req)) = (d1, None)
        \<and> rows d1 = rows ex_db @ [r] \<and> Fin (of_int (row_score r)) = clampScore x
        \<and> \<lparr>rows = [new_row ex_env ex_db ex_req ex_player 42 ex_tx], next_id = 2\<rparr> = prune d1"
    using stored_score_is_clamped [of ex_env ex_db ex_req
        "\<lparr>rows = [new_row ex_env ex_db ex_req ex_player 42 ex_tx], next_id = 2\<rparr>"
        "Top10 [project (new_row ex_env ex_db ex_req ex_player 42 ex_tx)]"]
      ex_submit
    by blast
  then show ?thesis
    using ex_submit ex_submit_v2 by (simp add: ex_req_fields new_row_def)
qed

subsection \<open>A score that is not finite\<close>

lemma submit_checks_required_iff:
  "submit_checks E d req = Inl (Resp 400 (Text ''txHash, address, score required'')) \<longleftrightarrow>
     \<not> truthy (body_txHash req) \<or> \<not> truthy (body_address req) \<or> \<not> typeof_number (body_score req)"
  by (auto simp: submit_checks_def Let_def split: sum.splits if_splits option.splits)

text \<open>
  C10.  A request whose \<open>score\<close> is NaN, Infinity or -Infinity has a score of type
  number: with a \<open>txHash\<close> and an \<open>address\<close> it is not answered
  "txHash, address, score required"; and when it is accepted, the row that the INSERT
  wrote has the score \<open>0\<close>, in both variants.
\<close>

theorem non_finite_score_stored_as_zero:
  assumes "body_score req = JNum n" and "n = NaN \<or> n = PosInf \<or> n = NegInf"
  shows "typeof_number (body_score req)
    \<and> (truthy (body_txHash req) \<and> truthy (body_address req) \<longrightarrow>
          submit_checks E d req \<noteq> Inl (Resp 400 (Text ''txHash, address, score required'')))
    \<and> (submitScore E d req = (d', Resp 200 b) \<longrightarrow>
          (\<exists>a (t::tx). d' = prune (d\<lparr>next_id := next_id d + 1,
                                    rows := rows d @ [new_row E d req a 0 t]\<rparr>)))
    \<and> (submitScore_v2 E d req = (d', Resp 200 b) \<longrightarrow>
          (\<exists>a (t::tx). d' = d\<lparr>next_id := next_id d + 1,
                              rows := rows d @ [new_row E d req a 0 t]\<rparr>))"
proof (intro conjI impI)
  show num: "typeof_number (body_score req)"
    using assms(1) by simp
  have zero: "clampScore (num_of (body_score req)) = Fin 0"
    using assms by (auto simp: clampScore_cases)
  show "submit_checks E d req \<noteq> Inl (Resp 400 (Text ''txHash, address, score required''))"
    if "truthy (body_txHash req) \<and> truthy (body_address req)"
    using that num by (simp add: submit_checks_required_iff)
  show "\<exists>a (t::tx). d' = prune (d\<lparr>next_id := next_id d + 1,
                                    rows := rows d @ [new_row E d req a 0 t]\<rparr>)"
    if ok: "submitScore E d req = (d', Resp 200 b)"
  proof -
    from submitScore_200D [OF ok] obtain a k t where
      chk: "submit_checks E d req = Inr (a, Fin (of_int k), t)"
      and d': "d' = prune (d\<lparr>next_id := next_id d + 1, rows := rows d @ [new_row E d req a k t]\<rparr>)"
      by blast
    from chk zero have "k = 0" by (simp add: submit_checks_Inr_iff)
    with d' show ?thesis by blast
  qed
  show "\<exists>a (t::tx). d' = d\<lparr>next_id := next_id d + 1,
                              rows := rows d @ [new_row E d req a 0 t]\<rparr>"
    if ok: "submitScore_v2 E d req = (d', Resp 200 b)"
  proof -
    from submitScore_v2_200D [OF ok] obtain a k t where
      chk: "submit_checks E d req = Inr (a, Fin (of_int k), t)"
      and d': "d' = d\<lparr>next_id := next_id d + 1, rows := rows d @ [new_row E d req a k t]\<rparr>"
      by blast
    from chk zero have "k = 0" by (simp add: submit_checks_Inr_iff)
    with d' show ?thesis by blast
  qed
qed

lemma ex_checks_inf:
  "submit_checks ex_env ex_db (ex_req\<lparr>body_score := JNum PosInf\<rparr>) = Inr (ex_player, Fin 0, ex_tx)"
  by (simp add: submit_checks_def ex_env_def ex_db_def ex_req_def ex_player_def valid_address_def base32_char_def
    toUpperCase_def upper_char_def txAlreadyUsed_def clampScore_def getJson_def ex_tx_def isRecent_def ex_pay_def validPay_def
    TREASURY_def KALE_CODE_def KALE_ISSUER_def)

lemma ex_submit_inf:
  "submitScore ex_env ex_db (ex_req\<lparr>body_score := JNum PosInf\<rparr>) =
     (\<lparr>rows = [new_row ex_env ex_db ex_req ex_player 0 ex_tx], next_id = 2\<rparr>,
      Resp 200 (Top10 [project (new_row ex_env ex_db ex_req ex_player 0 ex_tx)]))"
proof -
  have "pg_text ex_env (body_txHash (ex_req\<lparr>body_score := JNum PosInf\<rparr>)) \<notin> set (map row_tx_hash (rows ex_db))"
    by (simp add: ex_db_def)
  then show ?thesis
    using submitScore_at_Inr [OF ex_checks_inf, of ex_db]
    by (simp add: submitScore_def ex_db_def prune_def ranked_def new_row_def)
qed

lemma ex_submit_v2_inf:
  "submitScore_v2 ex_env ex_db (ex_req\<lparr>body_score := JNum PosInf\<rparr>) =
     (\<lparr>rows = [new_row ex_env ex_db ex_req ex_player 0 ex_tx], next_id = 2\<rparr>,
      Resp 200 (Top10 [project (new_row ex_env ex_db ex_req ex_player 0 ex_tx)]))"
proof -
  have "pg_text ex_env (body_txHash (ex_req\<lparr>body_score := JNum PosInf\<rparr>)) \<notin> set (map row_tx_hash (rows ex_db))"
    by (simp add: ex_db_def)
  then show ?thesis
    using submitScore_v2_at_Inr [OF ex_checks_inf, of ex_db]
    by (simp add: submitScore_v2_def ex_db_def ranked_v2_def ex_env_def new_row_def)
qed

theorem non_finite_score_stored_as_zero_witness:
  "body_score (ex_req\<lparr>body_score := JNum PosInf\<rparr>) = JNum PosInf
   \<and> truthy (body_txHash (ex_req\<lparr>body_score := JNum PosInf\<rparr>))
   \<and> truthy (body_address (ex_req\<lparr>body_score := JNum PosInf\<rparr>))
   \<and> submit_checks ex_env ex_db (ex_req\<lparr>body_score := JNum PosInf\<rparr>)
        \<noteq> Inl (Resp 400 (Text ''txHash, address, score required''))
   \<and> submitScore ex_env ex_db (ex_req\<lparr>body_score := JNum PosInf\<rparr>) =
       (\<lparr>rows = [new_row ex_env ex_db ex_req ex_player 0 ex_tx], next_id = 2\<rparr>,
        Resp 200 (Top10 [project (new_row ex_env ex_db ex_req ex_player 0 ex_tx)]))
   \<and> submitScore_v2 ex_env ex_db (ex_req\<lparr>body_score := JNum PosInf\<rparr>) =
       (\<lparr>rows = [new_row ex_env ex_db ex_req ex_player 0 ex_tx], next_id = 2\<rparr>,
        Resp 200 (Top10 [project (new_row ex_env ex_db ex_req ex_player 0 ex_tx)]))
   \<and> row_score (new_row ex_env ex_db ex_req ex_player 0 ex_tx) = 0"
  using non_finite_score_stored_as_zero [of "ex_req\<lparr>body_score := JNum PosInf\<rparr>" PosInf ex_env ex_db
      "\<lparr>rows = [new_row ex_env ex_db ex_req ex_player 0 ex_tx], next_id = 2\<rparr>"
      "Top10 [project (new_row ex_env ex_db ex_req ex_player 0 ex_tx)]"]
    ex_submit_inf ex_submit_v2_inf
  by (simp add: ex_req_def new_row_def)

subsection \<open>Replay of a transaction hash\<close>

lemma pg_text_cong: "other_param E2 = other_param E1 \<Longrightarrow> pg_text E2 h = pg_text E1 h"
  by (cases h) simp_all

lemma submit_checks_replay:
  assumes "truthy (body_txHash req)" "truthy (body_address req)" "typeof_number (body_score req)"
    and "valid_address (toUpperCase (String_js E (body_address req)))"
    and "txAlreadyUsed E d (body_txHash req)"
  shows "submit_checks E d req = Inl (Resp 409 (Text ''tx already used''))"
  using assms by (simp add: submit_checks_def Let_def)

lemma accepted_200: "accepted resp = (\<exists>b. resp = Resp 200 b)"
  by (cases resp) (simp add: accepted_def)

text \<open>
  C3 (as amended).  A first request is accepted; a second one carries the same
  \<open>txHash\<close>, an address that passes the address check and a score of type number, and
  is handled with the same database driver.  In the first variant, when the row of the
  first request is still in the table (pruning has not deleted it), the second request
  is answered 409 "tx already used" and the table is unchanged.  In the second
  variant, which never deletes, it always is.
\<close>

theorem replay_rejected_while_stored:
  assumes same: "body_txHash r2 = body_txHash r1"
    and driver: "other_param E2 = other_param E1"
    and shape: "truthy (body_address r2)" "typeof_number (body_score r2)"
    and addr: "valid_address (toUpperCase (String_js E2 (body_address r2)))"
  shows "(submitScore E1 d r1 = (d1, Resp 200 b) \<and> txAlreadyUsed E1 d1 (body_txHash r1) \<longrightarrow>
            submitScore E2 d1 r2 = (d1, Resp 409 (Text ''tx already used'')))
       \<and> (submitScore_v2 E1 d r1 = (d1, Resp 200 b) \<longrightarrow>
            submitScore_v2 E2 d1 r2 = (d1, Resp 409 (Text ''tx already used'')))"
proof (intro conjI impI)
  assume h: "submitScore E1 d r1 = (d1, Resp 200 b) \<and> txAlreadyUsed E1 d1 (body_txHash r1)"
  then have ok: "submitScore E1 d r1 = (d1, Resp 200 b)" by simp
  from submitScore_200D [OF ok] have "truthy (body_txHash r1)"
    by (auto simp: submit_checks_Inr_iff)
  then have tx: "truthy (body_txHash r2)" using same by simp
  from h have "txAlreadyUsed E2 d1 (body_txHash r2)"
    using same pg_text_cong [OF driver] by (simp add: txAlreadyUsed_iff)
  then have "submit_checks E2 d1 r2 = Inl (Resp 409 (Text ''tx already used''))"
    using tx shape addr by (intro submit_checks_replay)
  then show "submitScore E2 d1 r2 = (d1, Resp 409 (Text ''tx already used''))"
    by (simp add: submitScore_def submitScore_at_def)
next
  assume ok: "submitScore_v2 E1 d r1 = (d1, Resp 200 b)"
  from submitScore_v2_200D [OF ok] obtain a k t where
    chk: "submit_checks E1 d r1 = Inr (a, Fin (of_int k), t)"
    and d1: "d1 = d\<lparr>next_id := next_id d + 1, rows := rows d @ [new_row E1 d r1 a k t]\<rparr>"
    by blast
  from chk have "truthy (body_txHash r1)"
    by (simp add: submit_checks_Inr_iff)
  then have tx: "truthy (body_txHash r2)" using same by simp
  from d1 have "txAlreadyUsed E1 d1 (body_txHash r1)"
    by (simp add: txAlreadyUsed_iff new_row_def)
  then have "txAlreadyUsed E2 d1 (body_txHash r2)"
    using same pg_text_cong [OF driver] by (simp add: txAlreadyUsed_iff)
  then have "submit_checks E2 d1 r2 = Inl (Resp 409 (Text ''tx already used''))"
    using tx shape addr by (intro submit_checks_replay)
  then show "submitScore_v2 E2 d1 r2 = (d1, Resp 409 (Text ''tx already used''))"
    by (simp add: submitScore_v2_def submitScore_v2_at_def)
qed

lemma TREASURY_nonempty: "TREASURY \<noteq> []"
  by (simp add: TREASURY_def)

lemma valid_TREASURY: "valid_address (toUpperCase TREASURY)"
  by (simp add: TREASURY_def toUpperCase_def upper_char_def valid_address_def base32_char_def)

theorem replay_rejected_while_stored_witness:
  "submitScore ex_env ex_db ex_req =
     (\<lparr>rows = [new_row ex_env ex_db ex_req ex_player 42 ex_tx], next_id = 2\<rparr>,
      Resp 200 (Top10 [project (new_row ex_env ex_db ex_req ex_player 42 ex_tx)]))
   \<and> txAlreadyUsed ex_env \<lparr>rows = [new_row ex_env ex_db ex_req ex_player 42 ex_tx], next_id = 2\<rparr>
        (body_txHash ex_req)
   \<and> submitScore (ex_env\<lparr>Date_now := 1767225780000\<rparr>)
        \<lparr>rows = [new_row ex_env ex_db ex_req ex_player 42 ex_tx], next_id = 2\<rparr>
        (ex_req\<lparr>body_address := JStr TREASURY, body_score := JNum (Fin 7)\<rparr>)
      = (\<lparr>rows = [new_row ex_env ex_db ex_req ex_player 42 ex_tx], next_id = 2\<rparr>,
         Resp 409 (Text ''tx already used''))
   \<and> submitScore_v2 (ex_env\<lparr>Date_now := 1767225780000\<rparr>)
        \<lparr>rows = [new_row ex_env ex_db ex_req ex_player 42 ex_tx], next_id = 2\<rparr>
        (ex_req\<lparr>body_address := JStr TREASURY, body_score := JNum (Fin 7)\<rparr>)
      = (\<lparr>rows = [new_row ex_env ex_db ex_req ex_player 42 ex_tx], next_id = 2\<rparr>,
         Resp 409 (Text ''tx already used''))"
proof -
  have used: "txAlreadyUsed ex_env \<lparr>rows = [new_row ex_env ex_db ex_req ex_player 42 ex_tx], next_id = 2\<rparr>
        (body_txHash ex_req)"
    by (simp add: txAlreadyUsed_iff new_row_def)
  show ?thesis
    using replay_rejected_while_stored [of "ex_req\<lparr>body_address := JStr TREASURY, body_score := JNum (Fin 7)\<rparr>"
        ex_req "ex_env\<lparr>Date_now := 1767225780000\<rparr>" ex_env ex_db
        "\<lparr>rows = [new_row ex_env ex_db ex_req ex_player 42 ex_tx], next_id = 2\<rparr>"
        "Top10 [project (new_row ex_env ex_db ex_req ex_player 42 ex_tx)]"]
      ex_submit ex_submit_v2 used valid_TREASURY
    by (simp add: TREASURY_nonempty)
qed

text \<open>
  C3 (as stated) fails: the shape check and the address check come before the replay
  check, so a second request for \<open>T1\<close> with the address \<open>"x"\<close> is answered 400
  "bad address", and one with the string \<open>"42"\<close> for the score 400
  "txHash, address, score required".
\<close>

theorem replay_with_bad_fields_is_400:
  "accepted (snd (submitScore ex_env ex_db ex_req))
   \<and> body_txHash (ex_req\<lparr>body_address := JStr ''x''\<rparr>) = body_txHash ex_req
   \<and> snd (submitScore ex_env (fst (submitScore ex_env ex_db ex_req)) (ex_req\<lparr>body_address := JStr ''x''\<rparr>))
       = Resp 400 (Text ''bad address'')
   \<and> body_txHash (ex_req\<lparr>body_score := JStr ''42''\<rparr>) = body_txHash ex_req
   \<and> snd (submitScore ex_env (fst (submitScore ex_env ex_db ex_req)) (ex_req\<lparr>body_score := JStr ''42''\<rparr>))
       = Resp 400 (Text ''txHash, address, score required'')
   \<and> accepted (snd (submitScore_v2 ex_env ex_db ex_req))
   \<and> snd (submitScore_v2 ex_env (fst (submitScore_v2 ex_env ex_db ex_req)) (ex_req\<lparr>body_address := JStr ''x''\<rparr>))
       = Resp 400 (Text ''bad address'')"
proof -
  have bad: "submit_checks E d (ex_req\<lparr>body_address := JStr ''x''\<rparr>) = Inl (Resp 400 (Text ''bad address''))"
    for E d
    by (simp add: submit_checks_def ex_req_def toUpperCase_def upper_char_def valid_address_def)
  have req: "submit_checks E d (ex_req\<lparr>body_score := JStr ''42''\<rparr>)
      = Inl (Resp 400 (Text ''txHash, address, score required''))" for E d
    by (simp add: submit_checks_def ex_req_def)
  have b1: "submitScore E d (ex_req\<lparr>body_address := JStr ''x''\<rparr>)
      = (d, Resp 400 (Text ''bad address''))" for E d
    by (simp add: submitScore_def submitScore_at_def bad)
  have b2: "submitScore E d (ex_req\<lparr>body_score := JStr ''42''\<rparr>)
      = (d, Resp 400 (Text ''txHash, address, score required''))" for E d
    by (simp add: submitScore_def submitScore_at_def req)
  have b3: "submitScore_v2 E d (ex_req\<lparr>body_address := JStr ''x''\<rparr>)
      = (d, Resp 400 (Text ''bad address''))" for E d
    by (simp add: submitScore_v2_def submitScore_v2_at_def bad)
  show ?thesis
    by (simp add: ex_submit ex_submit_v2 accepted_def b1 b2 b3)
qed

subsection \<open>The memo check\<close>

lemma falsy_cases:
  "(\<not> truthy m) = (m \<in> {JUndefined, JNull, JBool False, JNum (Fin 0), JNum NaN, JStr []})"
  by (cases m) auto

text \<open>
  C5 (as amended).  For a request that reaches the memo check (the shape, address and
  replay checks passed, the transaction was fetched and is successful), the answer is
  400 "memos not allowed" if and only if \<open>memo_type\<close> is truthy and different from
  \<open>"none"\<close>.  So the check lets pass \<open>"none"\<close>, an absent \<open>memo_type\<close>, and every
  other falsy value: \<open>null\<close>, \<open>false\<close>, \<open>0\<close>, NaN and the empty string.
\<close>

theorem memo_check_by_truthiness:
  assumes "truthy (body_txHash req)" "truthy (body_address req)" "typeof_number (body_score req)"
    and "valid_address (toUpperCase (String_js E (body_address req)))"
    and "\<not> txAlreadyUsed E d (body_txHash req)"
    and "getJson (fetch_tx E (body_txHash req)) = Inr t"
    and "tx_successful t = JBool True"
  shows "(submit_checks E d req = Inl (Resp 400 (Text ''memos not allowed'')))
           = (truthy (tx_memo_type t) \<and> tx_memo_type t \<noteq> JStr ''none'')
       \<and> (submit_checks E d req \<noteq> Inl (Resp 400 (Text ''memos not allowed'')))
           = (tx_memo_type t \<in> {JUndefined, JNull, JBool False, JNum (Fin 0), JNum NaN, JStr [],
                JStr ''none''})"
proof -
  have a: "(submit_checks E d req = Inl (Resp 400 (Text ''memos not allowed'')))
           = (truthy (tx_memo_type t) \<and> tx_memo_type t \<noteq> JStr ''none'')"
    using assms by (auto simp: submit_checks_def Let_def split: sum.splits option.splits)
  have b: "(\<not> (truthy (tx_memo_type t) \<and> tx_memo_type t \<noteq> JStr ''none''))
      = (tx_memo_type t \<in> {JUndefined, JNull, JBool False, JNum (Fin 0), JNum NaN, JStr [],
                JStr ''none''})"
    using falsy_cases [of "tx_memo_type t"] by auto
  from a b show ?thesis by simp
qed

lemma ex_checks_memo:
  "submit_checks ex_env_memo ex_db ex_req = Inr (ex_player, Fin 42, ex_tx\<lparr>tx_memo_type := JStr []\<rparr>)"
  by (simp add: submit_checks_def ex_env_memo_def ex_env_def ex_db_def ex_req_def ex_player_def valid_address_def base32_char_def
    toUpperCase_def upper_char_def txAlreadyUsed_def clampScore_def getJson_def ex_tx_def isRecent_def ex_pay_def validPay_def
    TREASURY_def KALE_CODE_def KALE_ISSUER_def)

lemma Inr_accepted:
  assumes "submit_checks E d req = Inr (a, n, t)"
    and "pg_text E (body_txHash req) \<notin> set (map row_tx_hash (rows d))"
  shows "accepted (snd (submitScore E d req))" "accepted (snd (submitScore_v2 E d req))"
  using submitScore_at_Inr [OF assms(1), of d] submitScore_v2_at_Inr [OF assms(1), of d] assms(2)
  by (auto simp: submitScore_def submitScore_v2_def accepted_def)

theorem memo_check_by_truthiness_witness:
  "truthy (body_txHash ex_req) \<and> truthy (body_address ex_req) \<and> typeof_number (body_score ex_req)
   \<and> valid_address (toUpperCase (String_js ex_env (body_address ex_req)))
   \<and> \<not> txAlreadyUsed ex_env ex_db (body_txHash ex_req)
   \<and> getJson (fetch_tx ex_env (body_txHash ex_req)) = Inr ex_tx
   \<and> tx_successful ex_tx = JBool True
   \<and> tx_memo_type ex_tx = JStr ''none''
   \<and> submit_checks ex_env ex_db ex_req \<noteq> Inl (Resp 400 (Text ''memos not allowed''))"
proof -
  have h: "truthy (body_txHash ex_req)" "truthy (body_address ex_req)" "typeof_number (body_score ex_req)"
    "valid_address (toUpperCase (String_js ex_env (body_address ex_req)))"
    "\<not> txAlreadyUsed ex_env ex_db (body_txHash ex_req)"
    "getJson (fetch_tx ex_env (body_txHash ex_req)) = Inr ex_tx"
    "tx_successful ex_tx = JBool True"
    using ex_checks by (simp_all add: submit_checks_Inr_iff)
  have m: "tx_memo_type ex_tx = JStr ''none''" by (simp add: ex_tx_def)
  show ?thesis
    using memo_check_by_truthiness [OF h] h m by simp
qed

text \<open>
  C5 (as stated) fails: a transaction whose \<open>memo_type\<close> is the empty string, neither
  absent nor \<open>"none"\<close>, is not rejected by the memo check, and the submission is
  accepted.
\<close>

theorem empty_memo_type_accepted:
  "\<not> spec_memo_ok (JStr [])
   \<and> getJson (fetch_tx ex_env_memo (body_txHash ex_req)) = Inr (ex_tx\<lparr>tx_memo_type := JStr []\<rparr>)
   \<and> tx_memo_type (ex_tx\<lparr>tx_memo_type := JStr []\<rparr>) = JStr []
   \<and> submit_checks ex_env_memo ex_db ex_req \<noteq> Inl (Resp 400 (Text ''memos not allowed''))
   \<and> accepted (snd (submitScore ex_env_memo ex_db ex_req))
   \<and> accepted (snd (submitScore_v2 ex_env_memo ex_db ex_req))"
proof -
  have fresh: "pg_text ex_env_memo (body_txHash ex_req) \<notin> set (map row_tx_hash (rows ex_db))"
    by (simp add: ex_db_def)
  have f: "getJson (fetch_tx ex_env_memo (body_txHash ex_req)) = Inr (ex_tx\<lparr>tx_memo_type := JStr []\<rparr>)"
    by (simp add: ex_env_memo_def ex_env_def getJson_def)
  show ?thesis
    using Inr_accepted [OF ex_checks_memo fresh] f
    by (simp add: spec_memo_ok_def ex_checks_memo)
qed

subsection \<open>The payment check\<close>

lemma accepted_submitScore_D:
  assumes "accepted (snd (submitScore E d req)) \<or> accepted (snd (submitScore_v2 E d req))"
  shows "\<exists>n t. submit_checks E d req = Inr (toUpperCase (String_js E (body_address req)), n, t)"
proof (cases "submit_checks E d req")
  case (Inl resp)
  then have "resp \<noteq> Resp 200 b" for b
    using submit_checks_not_200 [of E d req] by auto
  then have "\<not> accepted resp" by (simp add: accepted_200)
  with Inl assms show ?thesis
    by (simp add: submitScore_def submitScore_at_def submitScore_v2_def submitScore_v2_at_def)
next
  case (Inr p)
  obtain a n t where p: "p = (a, n, t)" by (cases p)
  with Inr have "a = toUpperCase (String_js E (body_address req))"
    by (simp add: submit_checks_Inr_iff)
  with Inr p show ?thesis by simp
qed

text \<open>
  C4 (as amended).  A payment qualifies when its type is payment, its destination the
  treasury, its \<open>asset_type\<close> \<open>credit_alphanum4\<close> or \<open>credit_alphanum12\<close>, its asset
  code and issuer the fixed ones, its amount the string \<open>"1.0000000"\<close> and its source
  the upper-case claimed address.  For a request that reaches the payment check (all
  earlier checks passed and both Horizon documents were fetched), the checks succeed
  if exactly one operation qualifies, and otherwise the answer is 400
  "no valid KALE payment op to treasury from address".  A submission is accepted, by
  either variant, only when exactly one operation qualifies.
\<close>

theorem exactly_one_valid_payment:
  assumes "truthy (body_txHash req)" "truthy (body_address req)" "typeof_number (body_score req)"
    and "a = toUpperCase (String_js E (body_address req))"
    and "valid_address a"
    and "\<not> txAlreadyUsed E d (body_txHash req)"
    and "getJson (fetch_tx E (body_txHash req)) = Inr t"
    and "tx_successful t = JBool True"
    and "\<not> (truthy (tx_memo_type t) \<and> tx_memo_type t \<noteq> JStr ''none'')"
    and "isRecent E (tx_created_at t) 30"
    and "getJson (fetch_ops E (body_txHash req)) = Inr p"
    and "ops = (case p of None \<Rightarrow> [] | Some rs \<Rightarrow> rs)"
  shows "submit_checks E d req =
           (if length (filter (validPay a) ops) = 1
            then Inr (a, clampScore (num_of (body_score req)), t)
            else Inl (Resp 400 (Text ''no valid KALE payment op to treasury from address'')))
       \<and> (accepted (snd (submitScore E d req)) \<or> accepted (snd (submitScore_v2 E d req))
            \<longrightarrow> length (filter (validPay a) ops) = 1)"
proof -
  have a: "submit_checks E d req =
           (if length (filter (validPay a) ops) = 1
            then Inr (a, clampScore (num_of (body_score req)), t)
            else Inl (Resp 400 (Text ''no valid KALE payment op to treasury from address'')))"
    using assms by (simp add: submit_checks_def Let_def)
  have "length (filter (validPay a) ops) = 1"
    if "accepted (snd (submitScore E d req)) \<or> accepted (snd (submitScore_v2 E d req))"
    using accepted_submitScore_D [OF that] a by (auto split: if_splits)
  with a show ?thesis by blast
qed

theorem exactly_one_valid_payment_witness:
  "truthy (body_txHash ex_req) \<and> truthy (body_address ex_req) \<and> typeof_number (body_score ex_req)
   \<and> valid_address (toUpperCase (String_js ex_env (body_address ex_req)))
   \<and> \<not> txAlreadyUsed ex_env ex_db (body_txHash ex_req)
   \<and> getJson (fetch_tx ex_env (body_txHash ex_req)) = Inr ex_tx
   \<and> tx_successful ex_tx = JBool True
   \<and> \<not> (truthy (tx_memo_type ex_tx) \<and> tx_memo_type ex_tx \<noteq> JStr ''none'')
   \<and> isRecent ex_env (tx_created_at ex_tx) 30
   \<and> getJson (fetch_ops ex_env (body_txHash ex_req)) = Inr (Some [ex_pay])
   \<and> length (filter (validPay (toUpperCase (String_js ex_env (body_address ex_req)))) [ex_pay]) = 1
   \<and> submit_checks ex_env ex_db ex_req
       = Inr (toUpperCase (String_js ex_env (body_address ex_req)),
              clampScore (num_of (body_score ex_req)), ex_tx)
   \<and> accepted (snd (submitScore ex_env ex_db ex_req))"
proof -
  have acc: "accepted (snd (submitScore ex_env ex_db ex_req))"
    by (simp add: ex_submit accepted_def)
  have h: "truthy (body_txHash ex_req)" "truthy (body_address ex_req)" "typeof_number (body_score ex_req)"
    "toUpperCase (String_js ex_env (body_address ex_req)) = toUpperCase (String_js ex_env (body_address ex_req))"
    "valid_address (toUpperCase (String_js ex_env (body_address ex_req)))"
    "\<not> txAlreadyUsed ex_env ex_db (body_txHash ex_req)"
    "getJson (fetch_tx ex_env (body_txHash ex_req)) = Inr ex_tx"
    "tx_successful ex_tx = JBool True"
    "\<not> (truthy (tx_memo_type ex_tx) \<and> tx_memo_type ex_tx \<noteq> JStr ''none'')"
    "isRecent ex_env (tx_created_at ex_tx) 30"
    using ex_checks by (simp_all add: submit_checks_Inr_iff)
  have ops: "getJson (fetch_ops ex_env (body_txHash ex_req)) = Inr (Some [ex_pay])"
    by (simp add: ex_env_def getJson_def)
  have l: "[ex_pay] = (case Some [ex_pay] of None \<Rightarrow> [] | Some rs \<Rightarrow> rs)" by simp
  have one: "length (filter (validPay (toUpperCase (String_js ex_env (body_address ex_req)))) [ex_pay]) = 1"
    using ex_checks ops by (simp add: submit_checks_Inr_iff)
  show ?thesis
    using exactly_one_valid_payment [OF h ops l] h ops one acc by simp
qed

lemma ex_checks_ops2:
  "submit_checks ex_env_ops2 ex_db ex_req = Inr (ex_player, Fin 42, ex_tx)"
  by (simp add: submit_checks_def ex_env_ops2_def ex_ops2_def ex_env_def ex_db_def ex_req_def ex_player_def valid_address_def base32_char_def
    toUpperCase_def upper_char_def txAlreadyUsed_def clampScore_def getJson_def ex_tx_def isRecent_def ex_pay_def validPay_def
    TREASURY_def KALE_CODE_def KALE_ISSUER_def)

text \<open>
  C4 (as stated) fails: of two operations that both have the type, destination, asset
  code, issuer, amount and source that the specification lists, the filter counts only the one
  whose \<open>asset_type\<close> is \<open>credit_alphanum4\<close> or \<open>credit_alphanum12\<close>, and the
  submission is accepted.  And a transaction that is not successful is rejected for
  that, whatever its operations.
\<close>

theorem two_spec_matches_accepted:
  "getJson (fetch_ops ex_env_ops2 (body_txHash ex_req)) = Inr (Some ex_ops2)
   \<and> length (filter (spec_qualifies ex_player) ex_ops2) = 2
   \<and> length (filter (validPay ex_player) ex_ops2) = 1
   \<and> accepted (snd (submitScore ex_env_ops2 ex_db ex_req))
   \<and> accepted (snd (submitScore_v2 ex_env_ops2 ex_db ex_req))
   \<and> getJson (fetch_ops ex_env_failed (body_txHash ex_req)) = Inr (Some [])
   \<and> length (filter (spec_qualifies ex_player) []) = 0
   \<and> snd (submitScore ex_env_failed ex_db ex_req) = Resp 400 (Text ''tx not successful'')"
proof -
  have g: "getJson (fetch_ops ex_env_failed (body_txHash ex_req)) = Inr (Some [])"
    by (simp add: ex_env_failed_def ex_env_def getJson_def)
  have "submit_checks ex_env_failed ex_db ex_req = Inl (Resp 400 (Text ''tx not successful''))"
    by (simp add: submit_checks_def ex_env_failed_def ex_env_def ex_db_def ex_req_def
        valid_address_def base32_char_def toUpperCase_def upper_char_def txAlreadyUsed_def
        getJson_def ex_tx_def)
  then have u: "snd (submitScore ex_env_failed ex_db ex_req) = Resp 400 (Text ''tx not successful'')"
    by (simp add: submitScore_def submitScore_at_def)
  have fresh: "pg_text ex_env_ops2 (body_txHash ex_req) \<notin> set (map row_tx_hash (rows ex_db))"
    by (simp add: ex_db_def)
  have f: "getJson (fetch_ops ex_env_ops2 (body_txHash ex_req)) = Inr (Some ex_ops2)"
    by (simp add: ex_env_ops2_def ex_env_def getJson_def)
  have two: "length (filter (spec_qualifies ex_player) ex_ops2) = 2"
    by (simp add: spec_qualifies_def ex_ops2_def ex_pay_def)
  have one: "length (filter (validPay ex_player) ex_ops2) = 1"
    by (simp add: validPay_def ex_ops2_def ex_pay_def)
  show ?thesis
    using Inr_accepted [OF ex_checks_ops2 fresh] f two one g u by simp
qed

subsection \<open>The leaderboard\<close>

lemma rank_key_less_iff: "rank_key r < rank_key r' \<longleftrightarrow> rank_less r r'"
  by (auto simp: rank_key_def rank_less_def)

lemma rank_key_v2_less_iff: "rank_key_v2 r < rank_key_v2 r' \<longleftrightarrow> rank_less_v2 r r'"
  by (auto simp: rank_key_v2_def rank_less_v2_def)

lemma rank_key_le_iff: "rank_key r \<le> rank_key r' \<longleftrightarrow> \<not> rank_less r' r"
  using rank_key_less_iff [of r' r] by (simp only: not_less [symmetric])

lemma rank_key_v2_le_iff: "rank_key_v2 r \<le> rank_key_v2 r' \<longleftrightarrow> \<not> rank_less_v2 r' r"
  using rank_key_v2_less_iff [of r' r] by (simp only: not_less [symmetric])

lemma ranked_order: "sorted_wrt (\<lambda>r r'. \<not> rank_less r' r) (ranked rs)"
proof -
  have "sorted_wrt (\<lambda>r r'. rank_key r \<le> rank_key r') (ranked rs)"
    using sorted_ranked [of rs] by (simp only: sorted_map)
  then show ?thesis
    by (simp only: rank_key_le_iff)
qed

lemma ranked_v2_order: "sorted_wrt (\<lambda>r r'. \<not> rank_less_v2 r' r) (ranked_v2 E rs)"
proof -
  have "sorted (map rank_key_v2 (ranked_v2 E rs))"
    by (simp add: ranked_v2_def)
  then have "sorted_wrt (\<lambda>r r'. rank_key_v2 r \<le> rank_key_v2 r') (ranked_v2 E rs)"
    by (simp only: sorted_map)
  then show ?thesis
    by (simp only: rank_key_v2_le_iff)
qed

lemma leaderboard_limit_cases:
  "leaderboard_limit n =
     (case n of
        Fin x \<Rightarrow> if x = 0 then Fin 50 else if x < 1 then Fin 1 else if 100 < x then Fin 100 else Fin x
      | PosInf \<Rightarrow> Fin 100
      | NegInf \<Rightarrow> Fin 1
      | NaN \<Rightarrow> Fin 50)"
  by (cases n) (auto simp: leaderboard_limit_def)

lemma pg_limit_of_nat: "N \<le> 100 \<Longrightarrow> pg_limit (Fin (of_nat N)) = Some N"
proof -
  assume "N \<le> 100"
  then have "int N < 2 ^ 63" by simp
  then show ?thesis by (simp add: pg_limit_def)
qed

lemma leaderboard_of_limit:
  assumes "leaderboard_limit n = Fin (of_nat N)" "N \<le> 100"
  shows "leaderboard d n = Inr (Resp 200 (Top (map project (take N (ranked (rows d))))))"
    and "leaderboard_v2 E d n = Inr (Resp 200 (Top (map project (take N (ranked_v2 E (rows d))))))"
  using pg_limit_of_nat [OF assms(2)]
  by (simp_all only: leaderboard_def leaderboard_v2_def topN_def assms(1) option.case sum.case)

lemma effective_limit:
  assumes "\<not> (\<exists>x. n = Fin x \<and> 1 < x \<and> x < 100 \<and> x \<noteq> of_int \<lfloor>x\<rfloor>)"
  shows "\<exists>N. 1 \<le> N \<and> N \<le> 100 \<and> leaderboard_limit n = Fin (of_nat N)
      \<and> (n = NaN \<or> n = Fin 0 \<longrightarrow> N = 50)
      \<and> (n = PosInf \<longrightarrow> N = 100) \<and> (n = NegInf \<longrightarrow> N = 1)
      \<and> (\<forall>x. n = Fin x \<and> x \<noteq> 0 \<longrightarrow> of_nat N = max 1 (min x 100))"
proof (cases n)
  case NaN
  then show ?thesis by (intro exI [of _ 50]) (simp add: leaderboard_limit_cases)
next
  case PosInf
  then show ?thesis by (intro exI [of _ 100]) (simp add: leaderboard_limit_cases)
next
  case NegInf
  then show ?thesis by (intro exI [of _ 1]) (simp add: leaderboard_limit_cases)
next
  case (Fin x)
  consider "x = 0" | "x \<noteq> 0" "x < 1" | "100 < x" | "1 \<le> x" "x \<le> 100"
    by linarith
  then show ?thesis
  proof cases
    case 1
    with Fin show ?thesis by (intro exI [of _ 50]) (simp add: leaderboard_limit_cases)
  next
    case 2
    with Fin show ?thesis by (intro exI [of _ 1]) (simp add: leaderboard_limit_cases)
  next
    case 3
    with Fin show ?thesis by (intro exI [of _ 100]) (simp add: leaderboard_limit_cases)
  next
    case 4
    have int: "x = of_int \<lfloor>x\<rfloor>"
    proof (cases "1 < x \<and> x < 100")
      case True
      with assms Fin show ?thesis by blast
    next
      case False
      with 4 have "x = 1 \<or> x = 100" by linarith
      then show ?thesis by auto
    qed
    from 4 have pos: "0 \<le> \<lfloor>x\<rfloor>" by simp
    have xN: "x = of_nat (nat \<lfloor>x\<rfloor>)"
      using int pos by (metis of_int_of_nat_eq of_nat_nat)
    have lo: "1 \<le> nat \<lfloor>x\<rfloor>" using 4 by linarith
    have hi: "nat \<lfloor>x\<rfloor> \<le> 100" using 4 by linarith
    have lim: "leaderboard_limit n = Fin x"
      using Fin 4 by (simp add: leaderboard_limit_cases)
    have cl: "max 1 (min x 100) = x" using 4 by simp
    show ?thesis
    proof (intro exI [of _ "nat \<lfloor>x\<rfloor>"] conjI impI allI)
      show "1 \<le> nat \<lfloor>x\<rfloor>" by (rule lo)
      show "nat \<lfloor>x\<rfloor> \<le> 100" by (rule hi)
      show "leaderboard_limit n = Fin (of_nat (nat \<lfloor>x\<rfloor>))" using lim xN by simp
      show "nat \<lfloor>x\<rfloor> = 50" if "n = NaN \<or> n = Fin 0" using that Fin 4 by auto
      show "nat \<lfloor>x\<rfloor> = 100" if "n = PosInf" using that Fin by simp
      show "nat \<lfloor>x\<rfloor> = 1" if "n = NegInf" using that Fin by simp
      show "of_nat (nat \<lfloor>x\<rfloor>) = max 1 (min y 100)" if "n = Fin y \<and> y \<noteq> 0" for y
        using that Fin cl xN by simp
    qed
  qed
qed


text \<open>
  C8 (as amended).  With \<open>n\<close> the numeric coercion of the \<open>limit\<close> parameter, and for
  every \<open>n\<close> but a non-integer strictly between 1 and 100: the effective limit is an
  integer \<open>N\<close> between 1 and 100, namely 50 when \<open>n\<close> is NaN (the parameter is missing
  or not numeric) or \<open>0\<close>, 100 for Infinity, 1 for -Infinity, and every other number
  clamped to \<open>[1, 100]\<close>.  The response is 200 with the first \<open>N\<close> rows: in the first
  variant of the rows ordered by \<open>score DESC, created_at ASC, id ASC\<close>, in the second
  of the rows ordered by \<open>score DESC, created_at ASC\<close>, rows with equal keys in the
  order in which the database reads them.
\<close>

theorem leaderboard_limit_and_order:
  assumes "\<not> (\<exists>x. n = Fin x \<and> 1 < x \<and> x < 100 \<and> x \<noteq> of_int \<lfloor>x\<rfloor>)"
  shows "(\<exists>N. 1 \<le> N \<and> N \<le> 100 \<and> leaderboard_limit n = Fin (of_nat N)
      \<and> (n = NaN \<or> n = Fin 0 \<longrightarrow> N = 50)
      \<and> (n = PosInf \<longrightarrow> N = 100) \<and> (n = NegInf \<longrightarrow> N = 1)
      \<and> (\<forall>x. n = Fin x \<and> x \<noteq> 0 \<longrightarrow> of_nat N = max 1 (min x 100))
      \<and> leaderboard d n = Inr (Resp 200 (Top (map project (take N (ranked (rows d))))))
      \<and> leaderboard_v2 E d n = Inr (Resp 200 (Top (map project (take N (ranked_v2 E (rows d)))))))
   \<and> sorted_wrt (\<lambda>r r'. \<not> rank_less r' r) (ranked (rows d))
   \<and> mset (ranked (rows d)) = mset (rows d)
   \<and> sorted_wrt (\<lambda>r r'. \<not> rank_less_v2 r' r) (ranked_v2 E (rows d))
   \<and> (mset (pg_scan E (rows d)) = mset (rows d) \<longrightarrow> mset (ranked_v2 E (rows d)) = mset (rows d))"
proof (intro conjI impI)
  from effective_limit [OF assms] obtain N where
    N: "1 \<le> N" "N \<le> 100" "leaderboard_limit n = Fin (of_nat N)"
      "n = NaN \<or> n = Fin 0 \<longrightarrow> N = 50" "n = PosInf \<longrightarrow> N = 100" "n = NegInf \<longrightarrow> N = 1"
      "\<forall>x. n = Fin x \<and> x \<noteq> 0 \<longrightarrow> of_nat N = max 1 (min x 100)"
    by blast
  from N leaderboard_of_limit [OF N(3) N(2)]
  show "\<exists>N. 1 \<le> N \<and> N \<le> 100 \<and> leaderboard_limit n = Fin (of_nat N)
      \<and> (n = NaN \<or> n = Fin 0 \<longrightarrow> N = 50)
      \<and> (n = PosInf \<longrightarrow> N = 100) \<and> (n = NegInf \<longrightarrow> N = 1)
      \<and> (\<forall>x. n = Fin x \<and> x \<noteq> 0 \<longrightarrow> of_nat N = max 1 (min x 100))
      \<and> leaderboard d n = Inr (Resp 200 (Top (map project (take N (ranked (rows d))))))
      \<and> leaderboard_v2 E d n = Inr (Resp 200 (Top (map project (take N (ranked_v2 E (rows d))))))"
    by blast
  show "sorted_wrt (\<lambda>r r'. \<not> rank_less r' r) (ranked (rows d))"
    by (rule ranked_order)
  show "mset (ranked (rows d)) = mset (rows d)"
    by (rule mset_ranked)
  show "sorted_wrt (\<lambda>r r'. \<not> rank_less_v2 r' r) (ranked_v2 E (rows d))"
    by (rule ranked_v2_order)
  show "mset (ranked_v2 E (rows d)) = mset (rows d)" if "mset (pg_scan E (rows d)) = mset (rows d)"
    using that by (simp add: ranked_v2_def)
qed

lemma ex_ranked_3: "ranked (rows ex_db_3) = [ex_row3 3 9 20, ex_row3 2 9 30, ex_row3 1 5 10]"
  by (simp add: ex_db_3_def ranked_def rank_key_def ex_row3_def)

lemma ex_ranked_v2_3:
  "ranked_v2 ex_env (rows ex_db_3) = [ex_row3 3 9 20, ex_row3 2 9 30, ex_row3 1 5 10]"
  by (simp add: ex_db_3_def ranked_v2_def rank_key_v2_def ex_row3_def ex_env_def)

theorem leaderboard_limit_and_order_witness:
  "\<not> (\<exists>x. Fin 2 = Fin x \<and> 1 < x \<and> x < 100 \<and> x \<noteq> of_int \<lfloor>x\<rfloor>)
   \<and> mset (pg_scan ex_env (rows ex_db_3)) = mset (rows ex_db_3)
   \<and> leaderboard ex_db_3 (Fin 2)
       = Inr (Resp 200 (Top [project (ex_row3 3 9 20), project (ex_row3 2 9 30)]))
   \<and> leaderboard_v2 ex_env ex_db_3 (Fin 2)
       = Inr (Resp 200 (Top [project (ex_row3 3 9 20), project (ex_row3 2 9 30)]))
   \<and> \<not> (\<exists>x. Fin 0.5 = Fin x \<and> 1 < x \<and> x < 100 \<and> x \<noteq> of_int \<lfloor>x\<rfloor>)
   \<and> leaderboard ex_db_3 (Fin 0.5) = Inr (Resp 200 (Top [project (ex_row3 3 9 20)]))
   \<and> \<not> (\<exists>x. Fin 100.5 = Fin x \<and> 1 < x \<and> x < 100 \<and> x \<noteq> of_int \<lfloor>x\<rfloor>)
   \<and> leaderboard ex_db_3 (Fin 100.5)
       = Inr (Resp 200 (Top [project (ex_row3 3 9 20), project (ex_row3 2 9 30),
                              project (ex_row3 1 5 10)]))
   \<and> mset (ranked_v2 ex_env (rows ex_db_3)) = mset (rows ex_db_3)
   \<and> leaderboard_limit NaN = Fin 50 \<and> leaderboard_limit (Fin 0) = Fin 50
   \<and> leaderboard_limit PosInf = Fin 100 \<and> leaderboard_limit NegInf = Fin 1"
proof -
  have hN: "\<not> (\<exists>x. NaN = Fin x \<and> 1 < x \<and> x < 100 \<and> x \<noteq> of_int \<lfloor>x\<rfloor>)"
    and h0: "\<not> (\<exists>x. Fin 0 = Fin x \<and> 1 < x \<and> x < 100 \<and> x \<noteq> of_int \<lfloor>x\<rfloor>)"
    and hP: "\<not> (\<exists>x. PosInf = Fin x \<and> 1 < x \<and> x < 100 \<and> x \<noteq> of_int \<lfloor>x\<rfloor>)"
    and hM: "\<not> (\<exists>x. NegInf = Fin x \<and> 1 < x \<and> x < 100 \<and> x \<noteq> of_int \<lfloor>x\<rfloor>)"
    by simp_all
  from leaderboard_limit_and_order [OF hN, of ex_db_3 ex_env] obtain Na where
    "leaderboard_limit NaN = Fin (of_nat Na)" "Na = 50"
    by blast
  then have lN: "leaderboard_limit NaN = Fin 50" by simp
  from leaderboard_limit_and_order [OF h0, of ex_db_3 ex_env] obtain Nb where
    "leaderboard_limit (Fin 0) = Fin (of_nat Nb)" "Nb = 50"
    by blast
  then have l0: "leaderboard_limit (Fin 0) = Fin 50" by simp
  from leaderboard_limit_and_order [OF hP, of ex_db_3 ex_env] obtain Nc where
    "leaderboard_limit PosInf = Fin (of_nat Nc)" "Nc = 100"
    by blast
  then have lP: "leaderboard_limit PosInf = Fin 100" by simp
  from leaderboard_limit_and_order [OF hM, of ex_db_3 ex_env] obtain Nd where
    "leaderboard_limit NegInf = Fin (of_nat Nd)" "Nd = 1"
    by blast
  then have lM: "leaderboard_limit NegInf = Fin 1" by simp
  have h2: "\<not> (\<exists>x. Fin 2 = Fin x \<and> 1 < x \<and> x < 100 \<and> x \<noteq> of_int \<lfloor>x\<rfloor>)"
    by simp
  have h05: "\<not> (\<exists>x. Fin 0.5 = Fin x \<and> 1 < x \<and> x < 100 \<and> x \<noteq> of_int \<lfloor>x\<rfloor>)"
    by simp
  have h100: "\<not> (\<exists>x. Fin 100.5 = Fin x \<and> 1 < x \<and> x < 100 \<and> x \<noteq> of_int \<lfloor>x\<rfloor>)"
    by simp
  have scan: "mset (pg_scan ex_env (rows ex_db_3)) = mset (rows ex_db_3)"
    by (simp add: ex_env_def)
  from leaderboard_limit_and_order [OF h2, of ex_db_3 ex_env] obtain N where
    "leaderboard_limit (Fin 2) = Fin (of_nat N)"
    and a: "leaderboard ex_db_3 (Fin 2) = Inr (Resp 200 (Top (map project (take N (ranked (rows ex_db_3))))))"
    and b: "leaderboard_v2 ex_env ex_db_3 (Fin 2)
        = Inr (Resp 200 (Top (map project (take N (ranked_v2 ex_env (rows ex_db_3))))))"
    by blast
  then have "real N = 2" by (simp add: leaderboard_limit_def)
  then have N2: "N = 2" by linarith
  from leaderboard_limit_and_order [OF h05, of ex_db_3 ex_env] obtain M where
    "leaderboard_limit (Fin 0.5) = Fin (of_nat M)"
    and c: "leaderboard ex_db_3 (Fin 0.5) = Inr (Resp 200 (Top (map project (take M (ranked (rows ex_db_3))))))"
    by blast
  then have "real M = 1" by (simp add: leaderboard_limit_def)
  then have M1: "M = 1" by linarith
  from leaderboard_limit_and_order [OF h100, of ex_db_3 ex_env] obtain K where
    "leaderboard_limit (Fin 100.5) = Fin (of_nat K)"
    and e: "leaderboard ex_db_3 (Fin 100.5) = Inr (Resp 200 (Top (map project (take K (ranked (rows ex_db_3))))))"
    by blast
  then have "real K = 100" by (simp add: leaderboard_limit_def)
  then have K100: "K = 100" by linarith
  from leaderboard_limit_and_order [OF h2, of ex_db_3 ex_env] scan
  have ms: "mset (ranked_v2 ex_env (rows ex_db_3)) = mset (rows ex_db_3)"
    by blast
  show ?thesis
    using h2 h05 h100 scan ms a [unfolded N2 ex_ranked_3] b [unfolded N2 ex_ranked_v2_3]
      c [unfolded M1 ex_ranked_3] e [unfolded K100 ex_ranked_3] lN l0 lP lM
    by simp
qed

text \<open>
  C8 (as stated) fails: for \<open>limit=0\<close> the effective limit is 50, not 0 clamped to
  \<open>[1, 100]\<close>; for \<open>limit=2.5\<close> the effective limit is 2.5, which the database
  refuses as a \<open>LIMIT\<close>, so that no entries are returned; and of two rows with the
  same score and \<open>created_at\<close> the second variant, whose \<open>ORDER BY\<close> stops there,
  returns the row with the greater \<open>id\<close> first when the database reads it first.
\<close>

theorem limit_zero_fraction_and_ties:
  "leaderboard_limit (Fin 0) = Fin 50 \<and> spec_limit (Fin 0) = Fin 1
   \<and> leaderboard_limit (Fin 2.5) = Fin 2.5 \<and> spec_limit (Fin 2.5) = Fin 2.5
   \<and> leaderboard ex_db_T1 (Fin 2.5) = Inl InvalidInteger
   \<and> leaderboard_v2 ex_env ex_db_T1 (Fin 2.5) = Inl InvalidInteger
   \<and> rank_less (ex_row3 1 9 20) (ex_row3 2 9 20)
   \<and> project (ex_row3 1 9 20) \<noteq> project (ex_row3 2 9 20)
   \<and> mset (pg_scan ex_env_rev (rows ex_db_tie)) = mset (rows ex_db_tie)
   \<and> leaderboard ex_db_tie (Fin 2)
       = Inr (Resp 200 (Top [project (ex_row3 1 9 20), project (ex_row3 2 9 20)]))
   \<and> leaderboard_v2 ex_env_rev ex_db_tie (Fin 2)
       = Inr (Resp 200 (Top [project (ex_row3 2 9 20), project (ex_row3 1 9 20)]))"
proof -
  have lim2: "leaderboard_limit (Fin 2) = Fin 2" "pg_limit (Fin 2) = Some 2"
    by (simp_all add: leaderboard_limit_def pg_limit_def)
  have a: "leaderboard_limit (Fin 0) = Fin 50 \<and> spec_limit (Fin 0) = Fin 1
     \<and> leaderboard_limit (Fin 2.5) = Fin 2.5 \<and> spec_limit (Fin 2.5) = Fin 2.5
     \<and> leaderboard ex_db_T1 (Fin 2.5) = Inl InvalidInteger
     \<and> leaderboard_v2 ex_env ex_db_T1 (Fin 2.5) = Inl InvalidInteger"
    by (simp add: leaderboard_limit_def spec_limit_def leaderboard_def leaderboard_v2_def topN_def pg_limit_def)
  have b: "rank_less (ex_row3 1 9 20) (ex_row3 2 9 20)"
    by (simp add: rank_less_def ex_row3_def)
  have c: "project (ex_row3 1 9 20) \<noteq> project (ex_row3 2 9 20)"
    by (simp add: project_def ex_row3_def ex_hash_def eval_nat_numeral)
  have d: "mset (pg_scan ex_env_rev (rows ex_db_tie)) = mset (rows ex_db_tie)"
    by (simp add: ex_env_rev_def)
  have e: "ranked (rows ex_db_tie) = [ex_row3 1 9 20, ex_row3 2 9 20]"
    by (simp add: ex_db_tie_def ranked_def rank_key_def ex_row3_def)
  have f: "ranked_v2 ex_env_rev (rows ex_db_tie) = [ex_row3 2 9 20, ex_row3 1 9 20]"
    by (simp add: ex_db_tie_def ranked_v2_def rank_key_v2_def ex_row3_def ex_env_rev_def)
  have g: "leaderboard ex_db_tie (Fin 2)
       = Inr (Resp 200 (Top [project (ex_row3 1 9 20), project (ex_row3 2 9 20)]))"
    by (simp add: leaderboard_def topN_def lim2 e)
  have h: "leaderboard_v2 ex_env_rev ex_db_tie (Fin 2)
       = Inr (Resp 200 (Top [project (ex_row3 2 9 20), project (ex_row3 1 9 20)]))"
    by (simp add: leaderboard_v2_def lim2 f)
  from a b c d g h show ?thesis by simp
qed

subsection \<open>Pruning to the best 100\<close>

lemma wf_db_bump: "wf_db d \<Longrightarrow> wf_db (d\<lparr>next_id := next_id d + 1\<rparr>)"
  by (auto simp: wf_db_def list_all_iff)

lemma wf_db_insert:
  assumes "wf_db d" "row_id r = next_id d" "row_tx_hash r \<notin> set (map row_tx_hash (rows d))"
  shows "wf_db (d\<lparr>next_id := next_id d + 1, rows := rows d @ [r]\<rparr>)"
  using assms by (auto simp: wf_db_def list_all_iff)

lemma wf_db_prune: "wf_db d \<Longrightarrow> wf_db (prune d)"
  by (auto simp: wf_db_def prune_def list_all_iff distinct_map_filter)

lemma take_insort_take:
  "take n (insort_key f r (take n xs)) = take n (insort_key f r xs)"
proof (induction xs arbitrary: n)
  case Nil
  show ?case by simp
next
  case (Cons x xs)
  show ?case
  proof (cases n)
    case 0
    then show ?thesis by simp
  next
    case (Suc m)
    show ?thesis
    proof (cases "f r \<le> f x")
      case True
      have "take m (x # take m xs) = take m (x # xs)"
        by (cases m) simp_all
      with True Suc show ?thesis by simp
    next
      case False
      with Suc Cons.IH [of m] show ?thesis by simp
    qed
  qed
qed

lemma inj_on_rank_key:
  assumes "distinct (map row_id rs)"
  shows "inj_on rank_key (set rs)"
proof (rule inj_onI)
  fix x y assume "x \<in> set rs" "y \<in> set rs" "rank_key x = rank_key y"
  then have xy: "x \<in> set rs" "y \<in> set rs" and "row_id x = row_id y"
    by (simp_all add: rank_key_def)
  moreover from assms have "inj_on row_id (set rs)" by (simp add: distinct_map)
  ultimately show "x = y" by (metis inj_onD)
qed

lemma ranked_snoc:
  assumes "distinct (map row_id (rs @ [r]))"
  shows "ranked (rs @ [r]) = insort_key rank_key r (ranked rs)"
proof -
  have inj: "inj_on rank_key (set (rs @ [r]))"
    using assms by (rule inj_on_rank_key)
  then have inj': "inj_on rank_key (set rs)"
    by (auto simp: inj_on_def)
  have "ranked (rs @ [r]) = fold (insort_key rank_key) (rs @ [r]) []"
    unfolding ranked_def using inj by (rule sort_key_conv_fold)
  also have "\<dots> = insort_key rank_key r (fold (insort_key rank_key) rs [])"
    by simp
  also have "fold (insort_key rank_key) rs [] = ranked rs"
    unfolding ranked_def using inj' by (rule sort_key_conv_fold [symmetric])
  finally show ?thesis .
qed

lemma distinct_rank_keys:
  assumes "distinct (map row_id rs)"
  shows "distinct (map rank_key rs)"
proof -
  from assms have "distinct rs" by (simp add: distinct_map)
  with inj_on_rank_key [OF assms] show ?thesis by (simp add: distinct_map)
qed

lemma top_outranks_rest:
  assumes ids: "distinct (map row_id rs)"
    and x: "x \<in> set (take n (ranked rs))" and y: "y \<in> set rs" "y \<notin> set (take n (ranked rs))"
  shows "rank_less x y"
proof -
  have "distinct (map row_id (ranked rs))"
    using ids by (rule distinct_ids_ranked)
  then have d: "distinct (map rank_key (ranked rs))"
    by (rule distinct_rank_keys)
  have "set (ranked rs) = set (take n (ranked rs)) \<union> set (drop n (ranked rs))"
    by (metis append_take_drop_id set_append)
  with y have "y \<in> set (drop n (ranked rs))"
    by (simp add: set_ranked)
  with sorted_take_drop_less [OF sorted_ranked d x] have "rank_key x < rank_key y" .
  then show ?thesis by (simp only: rank_key_less_iff)
qed

lemma submitScore_cases:
  assumes "submitScore E d req = (d', resp)"
  shows "(\<not> accepted resp \<and> (d' = d \<or> d' = d\<lparr>next_id := next_id d + 1\<rparr>))
    \<or> (\<exists>a k t. accepted resp \<and> submit_checks E d req = Inr (a, Fin (of_int k), t)
          \<and> pg_text E (body_txHash req) \<notin> set (map row_tx_hash (rows d))
          \<and> d' = prune (d\<lparr>next_id := next_id d + 1, rows := rows d @ [new_row E d req a k t]\<rparr>))"
proof (cases "submit_checks E d req")
  case (Inl r)
  then have "r \<noteq> Resp 200 b" for b
    using submit_checks_not_200 [of E d req] by auto
  then have "\<not> accepted r" by (simp add: accepted_200)
  with Inl assms show ?thesis
    by (auto simp: submitScore_def submitScore_at_def)
next
  case (Inr p)
  obtain a n t where p: "p = (a, n, t)" by (cases p)
  from submitScore_at_Inr [OF Inr [unfolded p], of d] obtain k where
    n: "n = Fin (of_int k)" and
    s: "submitScore_at E d d req =
       (if pg_text E (body_txHash req) \<in> set (map row_tx_hash (rows d))
        then (d\<lparr>next_id := next_id d + 1\<rparr>, Resp 500 (ErrorMessage UniqueViolation))
        else (prune (d\<lparr>next_id := next_id d + 1, rows := rows d @ [new_row E d req a k t]\<rparr>),
              Resp 200 (Top10 (map project (take 10 (ranked (rows
                (prune (d\<lparr>next_id := next_id d + 1, rows := rows d @ [new_row E d req a k t]\<rparr>)))))))))"
    by blast
  show ?thesis
  proof (cases "pg_text E (body_txHash req) \<in> set (map row_tx_hash (rows d))")
    case True
    with s assms show ?thesis by (auto simp: submitScore_def accepted_def)
  next
    case False
    with s assms Inr p n show ?thesis by (auto simp: submitScore_def accepted_def)
  qed
qed

lemma next_id_prune: "next_id (prune d) = next_id d"
  by (simp add: prune_def)

lemma history_invariant:
  assumes "history d H"
  shows "wf_db d \<and> distinct (map row_id H) \<and> (\<forall>r\<in>set H. row_id r < next_id d)
    \<and> ranked (rows d) = take 100 (ranked H)"
  using assms
proof (induction rule: history.induct)
  case history_empty
  show ?case by (simp add: wf_db_def ranked_def)
next
  case (history_rejected d H E req d' resp)
  from submitScore_cases [OF history_rejected.hyps(2)] history_rejected.hyps(3)
  have "d' = d \<or> d' = d\<lparr>next_id := next_id d + 1\<rparr>" by blast
  then show ?case
  proof
    assume "d' = d"
    with history_rejected.IH show ?thesis by simp
  next
    assume d': "d' = d\<lparr>next_id := next_id d + 1\<rparr>"
    from history_rejected.IH have "wf_db d'" unfolding d' by (intro wf_db_bump) simp
    moreover from history_rejected.IH have "\<forall>r\<in>set H. row_id r < next_id d'"
      unfolding d' by auto
    moreover from history_rejected.IH have "ranked (rows d') = take 100 (ranked H)"
      unfolding d' by simp
    ultimately show ?thesis using history_rejected.IH by simp
  qed
next
  case (history_accepted d H E req d' resp a k t)
  let ?r = "new_row E d req a k t"
  let ?d1 = "d\<lparr>next_id := next_id d + 1, rows := rows d @ [?r]\<rparr>"
  from history_accepted.IH have wf: "wf_db d" and dH: "distinct (map row_id H)"
    and lt: "\<forall>r\<in>set H. row_id r < next_id d"
    and top: "ranked (rows d) = take 100 (ranked H)"
    by simp_all
  from submitScore_cases [OF history_accepted.hyps(2)] history_accepted.hyps(3,4)
  have fresh: "pg_text E (body_txHash req) \<notin> set (map row_tx_hash (rows d))"
    and d': "d' = prune ?d1"
    by auto
  have id: "row_id ?r = next_id d" and tx: "row_tx_hash ?r = pg_text E (body_txHash req)"
    by (simp_all add: new_row_def)
  have wf1: "wf_db ?d1"
    using wf id fresh by (intro wf_db_insert) (simp_all add: tx)
  then have wf': "wf_db d'" unfolding d' by (rule wf_db_prune)
  from wf1 have ids1: "distinct (map row_id (rows d @ [?r]))"
    by (simp add: wf_db_def)
  from dH lt id have idsH: "distinct (map row_id (H @ [?r]))"
    by auto
  have lt': "\<forall>r\<in>set (H @ [?r]). row_id r < next_id d'"
    using lt id unfolding d' next_id_prune by auto
  have "ranked (rows d') = take 100 (ranked (rows d @ [?r]))"
    unfolding d' using ranked_prune [of ?d1] ids1 by simp
  also have "\<dots> = take 100 (insort_key rank_key ?r (ranked (rows d)))"
    using ids1 by (simp only: ranked_snoc)
  also have "\<dots> = take 100 (insort_key rank_key ?r (take 100 (ranked H)))"
    by (simp only: top)
  also have "\<dots> = take 100 (insort_key rank_key ?r (ranked H))"
    by (rule take_insort_take)
  also have "\<dots> = take 100 (ranked (H @ [?r]))"
    using idsH by (simp only: ranked_snoc)
  finally have "ranked (rows d') = take 100 (ranked (H @ [?r]))" .
  with wf' idsH lt' show ?case by simp
qed

lemma history_step:
  assumes "history d H"
  shows "\<exists>H'. history (fst (submitScore E d req)) H'"
proof -
  obtain d' resp where s: "submitScore E d req = (d', resp)"
    by (cases "submitScore E d req")
  show ?thesis
  proof (cases "accepted resp")
    case True
    then obtain b where "resp = Resp 200 b"
      by (auto simp: accepted_200)
    with submitScore_200D [of E d req d' b] s obtain a k t where
      "submit_checks E d req = Inr (a, Fin (of_int k), t)"
      by blast
    from history_accepted [OF assms s True this] s show ?thesis
      by auto
  next
    case False
    from history_rejected [OF assms s False] s show ?thesis
      by auto
  qed
qed

text \<open>
  C2 (as amended).  In the variant that prunes, after any sequence of requests from
  the empty table the table holds at most 100 rows, and they are exactly the 100
  highest-ranked by \<open>score DESC, created_at ASC, id ASC\<close> of all the rows that
  accepted submissions wrote (all of them while there are fewer than 100): in rank
  order the table is the first 100 of the ranked history, and every row of the table
  comes strictly before every row of the history that is not in it.  Every further
  request continues the run.
\<close>

theorem store_is_top_100:
  assumes "history d H"
  shows "length (rows d) \<le> 100 \<and> length (rows d) = min 100 (length H)
    \<and> ranked (rows d) = take 100 (ranked H)
    \<and> set (rows d) \<subseteq> set H
    \<and> (\<forall>x\<in>set (rows d). \<forall>y\<in>set H - set (rows d). rank_less x y)
    \<and> (\<exists>H'. history (fst (submitScore E d req)) H')"
proof -
  from history_invariant [OF assms] have ids: "distinct (map row_id H)"
    and top: "ranked (rows d) = take 100 (ranked H)"
    by simp_all
  have "length (rows d) = length (ranked (rows d))"
    by (simp only: length_ranked)
  also have "\<dots> = min 100 (length H)"
    by (simp add: top length_ranked min.commute)
  finally have len: "length (rows d) = min 100 (length H)" .
  have "set (rows d) = set (ranked (rows d))"
    by (simp only: set_ranked)
  then have set: "set (rows d) = set (take 100 (ranked H))"
    by (simp only: top)
  have sub: "set (rows d) \<subseteq> set H"
    unfolding set using set_take_subset [of 100 "ranked H"] by (simp only: set_ranked)
  have out: "rank_less x y" if "x \<in> set (rows d)" "y \<in> set H - set (rows d)" for x y
    using that top_outranks_rest [OF ids, of x 100 y] unfolding set by simp
  from len top sub out history_step [OF assms, of E req] show ?thesis by simp
qed

lemma ex_hash_inj: "ex_hash i = ex_hash j \<Longrightarrow> i = j"
proof -
  assume "ex_hash i = ex_hash j"
  then have "length (ex_hash i) = length (ex_hash j)" by simp
  then show "i = j" by (simp add: ex_hash_def)
qed

text \<open>
  The series of players through the route.  Each of the first 1024 players has a valid
  address of its own, so each request has a key of its own for the limiter and is the
  first of its key; each names a transaction hash of its own, so none is a replay.
\<close>

lemma base32_nth:
  "k < 32 \<Longrightarrow> base32_char (''ABCDEFGHIJKLMNOPQRSTUVWXYZ234567'' ! k)"
  unfolding base32_char_def by (rule nth_mem) simp

lemma upper_alphabet:
  "list_all (\<lambda>c. upper_char c = c) ''ABCDEFGHIJKLMNOPQRSTUVWXYZ234567''"
  by (simp add: upper_char_def)

lemma upper_base32: "base32_char c \<Longrightarrow> upper_char c = c"
  using upper_alphabet unfolding base32_char_def list_all_iff by blast

lemma ex_addr_upper:
  assumes "i < 1024"
  shows "toUpperCase (ex_addr i) = ex_addr i"
proof -
  from assms have d: "i div 32 < 32" "i mod 32 < 32" by auto
  have g: "upper_char (CHR ''G'') = CHR ''G''" "upper_char (CHR ''A'') = CHR ''A''"
    by (simp_all add: upper_char_def)
  show ?thesis
    using upper_base32 [OF base32_nth [OF d(1)]] upper_base32 [OF base32_nth [OF d(2)]] g
    by (simp add: ex_addr_def toUpperCase_def)
qed

lemma ex_addr_valid:
  assumes "i < 1024"
  shows "valid_address (ex_addr i)"
proof -
  from assms have d: "i div 32 < 32" "i mod 32 < 32" by auto
  have a: "base32_char (CHR ''A'')" by (simp add: base32_char_def)
  show ?thesis
    using base32_nth [OF d(1)] base32_nth [OF d(2)] a
    by (simp add: ex_addr_def valid_address_def list_all_iff)
qed

lemma ex_addr_inj:
  assumes "i < 1024" "j < 1024" "ex_addr i = ex_addr j"
  shows "i = j"
proof -
  from assms(1,2) have d: "i div 32 < 32" "i mod 32 < 32" "j div 32 < 32" "j mod 32 < 32"
    by auto
  have dist: "distinct ''ABCDEFGHIJKLMNOPQRSTUVWXYZ234567''" by simp
  have len: "length ''ABCDEFGHIJKLMNOPQRSTUVWXYZ234567'' = 32" by simp
  from assms(3) have
    "''ABCDEFGHIJKLMNOPQRSTUVWXYZ234567'' ! (i div 32) = ''ABCDEFGHIJKLMNOPQRSTUVWXYZ234567'' ! (j div 32)"
    "''ABCDEFGHIJKLMNOPQRSTUVWXYZ234567'' ! (i mod 32) = ''ABCDEFGHIJKLMNOPQRSTUVWXYZ234567'' ! (j mod 32)"
    by (simp_all add: ex_addr_def)
  then have "i div 32 = j div 32" "i mod 32 = j mod 32"
    using d dist len by (simp_all only: nth_eq_iff_index_eq)
  then show ?thesis by (metis div_mult_mod_eq)
qed

lemma ex_key: "keyGenerator (ex_req_n i) = ''addr:'' @ toUpperCase (ex_addr i)"
  by (simp add: keyGenerator_def ex_req_n_def)

lemma ex_key_inj:
  assumes "i < 1024" "j < 1024" "keyGenerator (ex_req_n i) = keyGenerator (ex_req_n j)"
  shows "i = j"
  using assms ex_addr_inj [of i j] by (simp add: ex_key ex_addr_upper)

lemma ex_req_n_fields:
  "body_txHash (ex_req_n i) = JStr (ex_hash i)" "body_address (ex_req_n i) = JStr (ex_addr i)"
  "body_score (ex_req_n i) = JNum (Fin 42.5)" "req_ip (ex_req_n i) = Some ''10.0.0.1''"
  "req_ua (ex_req_n i) = None"
  by (simp_all add: ex_req_n_def ex_req_def)

lemma ex_checks_series:
  assumes "i < 1024" and "ex_hash i \<notin> set (map row_tx_hash (rows d))"
  shows "submit_checks ex_env_series d (ex_req_n i) = Inr (ex_addr i, Fin (of_int 42), ex_tx)"
proof -
  have len: "length (ex_hash i) - Suc 0 = i" by (simp add: ex_hash_def)
  have cl: "clampScore (Fin 42.5) = Fin 42" by (simp add: clampScore_def)
  have ops: "getJson (fetch_ops ex_env_series (JStr (ex_hash i)))
      = Inr (Some [ex_pay\<lparr>op_from := JStr (ex_addr i)\<rparr>])"
    by (simp add: ex_env_series_def getJson_def len)
  have pay: "filter (validPay (ex_addr i)) [ex_pay\<lparr>op_from := JStr (ex_addr i)\<rparr>]
      = [ex_pay\<lparr>op_from := JStr (ex_addr i)\<rparr>]"
    by (simp add: validPay_def ex_pay_def)
  have tx: "getJson (fetch_tx ex_env_series (JStr (ex_hash i))) = Inr ex_tx"
    by (simp add: ex_env_series_def ex_env_def getJson_def)
  have rec: "isRecent ex_env_series (tx_created_at ex_tx) 30"
    by (simp add: isRecent_def ex_env_series_def ex_env_def ex_tx_def)
  have h: "ex_hash i \<noteq> []" by (simp add: ex_hash_def)
  have ne: "ex_addr i \<noteq> []" by (simp add: ex_addr_def)
  have used: "\<not> txAlreadyUsed ex_env_series d (JStr (ex_hash i))"
    using assms(2) by (simp add: txAlreadyUsed_iff)
  show ?thesis
    using used ne cl ops pay tx rec h ex_addr_upper [OF assms(1)] ex_addr_valid [OF assms(1)]
    by (simp add: submit_checks_Inr_iff ex_req_n_fields ex_tx_def)
qed

lemma ex_new_row:
  "next_id d = int i + 1 \<Longrightarrow> new_row ex_env_series d (ex_req_n i) (ex_addr i) 42 ex_tx = ex_series_row i"
  by (simp add: new_row_def ex_series_row_def ex_req_n_fields ex_tx_def ex_env_series_def ex_env_def)

lemma ex_series_hashes: "map row_tx_hash (map ex_series_row [0..<n]) = map ex_hash [0..<n]"
  by (simp add: ex_series_row_def)

lemma ex_hash_fresh: "ex_hash m \<notin> set (map ex_hash [0..<m])"
  by (auto dest: ex_hash_inj)

lemma route_pass:
  assumes "hits (keyGenerator req) = 0"
  shows "route handler E (hits, d) req
     = ((hits(keyGenerator req := 1), fst (handler E d req)), snd (handler E d req))"
  using assms by (simp add: route_def submitLimiter_def Let_def split: prod.splits)

lemma history_rows_subset:
  assumes "history d H"
  shows "set (rows d) \<subseteq> set H"
proof -
  from history_invariant [OF assms] have top: "ranked (rows d) = take 100 (ranked H)"
    by simp
  have "set (rows d) = set (ranked (rows d))"
    by (simp only: set_ranked)
  also have "\<dots> \<subseteq> set (ranked H)"
    unfolding top by (rule set_take_subset)
  finally show ?thesis by (simp only: set_ranked)
qed

lemma ex_step_v2:
  assumes "m < 1024" "rows d = map ex_series_row [0..<m]" "next_id d = int m + 1"
  shows "accepted (snd (submitScore_v2 ex_env_series d (ex_req_n m)))
    \<and> rows (fst (submitScore_v2 ex_env_series d (ex_req_n m))) = map ex_series_row [0..<Suc m]
    \<and> next_id (fst (submitScore_v2 ex_env_series d (ex_req_n m))) = int (Suc m) + 1"
proof -
  have fresh: "ex_hash m \<notin> set (map row_tx_hash (rows d))"
    unfolding assms(2) ex_series_hashes by (rule ex_hash_fresh)
  note c = ex_checks_series [OF assms(1) fresh]
  have fresh': "pg_text ex_env_series (body_txHash (ex_req_n m)) \<notin> set (map row_tx_hash (rows d))"
    using fresh by (simp add: ex_req_n_fields)
  from submitScore_v2_at_Inr [OF c, of d] fresh' obtain k where
    k: "Fin (of_int 42) = Fin (of_int k)" and
    s: "submitScore_v2 ex_env_series d (ex_req_n m) =
         (d\<lparr>next_id := next_id d + 1, rows := rows d @ [new_row ex_env_series d (ex_req_n m) (ex_addr m) k ex_tx]\<rparr>,
          Resp 200 (Top10 (map project (take 10 (ranked_v2 ex_env_series
             (rows d @ [new_row ex_env_series d (ex_req_n m) (ex_addr m) k ex_tx]))))))"
    unfolding submitScore_v2_def by auto
  from k have k42: "k = 42" by simp
  show ?thesis
    unfolding s by (simp add: accepted_def k42 ex_new_row [OF assms(3)] assms(2,3))
qed

lemma ex_step:
  assumes "m < 1024" "history d (map ex_series_row [0..<m])" "next_id d = int m + 1"
  shows "accepted (snd (submitScore ex_env_series d (ex_req_n m)))
    \<and> history (fst (submitScore ex_env_series d (ex_req_n m))) (map ex_series_row [0..<Suc m])
    \<and> next_id (fst (submitScore ex_env_series d (ex_req_n m))) = int (Suc m) + 1"
proof -
  have "set (map row_tx_hash (rows d)) \<subseteq> set (map row_tx_hash (map ex_series_row [0..<m]))"
    using history_rows_subset [OF assms(2)] by auto
  then have fresh: "ex_hash m \<notin> set (map row_tx_hash (rows d))"
    unfolding ex_series_hashes using ex_hash_fresh [of m] by blast
  note c = ex_checks_series [OF assms(1) fresh]
  have fresh': "pg_text ex_env_series (body_txHash (ex_req_n m)) \<notin> set (map row_tx_hash (rows d))"
    using fresh by (simp add: ex_req_n_fields)
  obtain d' resp where s: "submitScore ex_env_series d (ex_req_n m) = (d', resp)"
    by (cases "submitScore ex_env_series d (ex_req_n m)")
  from Inr_accepted(1) [OF c fresh'] s have acc: "accepted resp" by simp
  from history_accepted [OF assms(2) s acc c]
  have h: "history d' (map ex_series_row [0..<Suc m])"
    by (simp add: ex_new_row [OF assms(3)])
  from submitScore_cases [OF s] acc have "next_id d' = next_id d + 1"
    by (auto simp: next_id_prune)
  with acc h s assms(3) show ?thesis by simp
qed

lemma upt_step: "[m..<m + Suc n] = m # [Suc m..<Suc m + n]"
  by (simp add: upt_conv_Cons)

lemma series_v2:
  assumes "rows d = map ex_series_row [0..<m]" "next_id d = int m + 1"
    and "\<forall>j. m \<le> j \<and> j < 1024 \<longrightarrow> hits (keyGenerator (ex_req_n j)) = 0"
    and "m + n \<le> 1024"
  shows "list_all accepted (snd (routeAll submitScore_v2 ex_env_series (hits, d) (map ex_req_n [m..<m + n])))
    \<and> length (snd (routeAll submitScore_v2 ex_env_series (hits, d) (map ex_req_n [m..<m + n]))) = n
    \<and> rows (snd (fst (routeAll submitScore_v2 ex_env_series (hits, d) (map ex_req_n [m..<m + n]))))
        = map ex_series_row [0..<m + n]"
  using assms
proof (induction n arbitrary: hits d m)
  case 0
  then show ?case by simp
next
  case (Suc n)
  let ?d1 = "fst (submitScore_v2 ex_env_series d (ex_req_n m))"
  let ?hits1 = "hits(keyGenerator (ex_req_n m) := 1)"
  from Suc.prems(4) have m: "m < 1024" by simp
  from Suc.prems(3) m have zero: "hits (keyGenerator (ex_req_n m)) = 0" by simp
  note st = ex_step_v2 [OF m Suc.prems(1,2)]
  have hits1: "\<forall>j. Suc m \<le> j \<and> j < 1024 \<longrightarrow> ?hits1 (keyGenerator (ex_req_n j)) = 0"
  proof (intro allI impI)
    fix j assume j: "Suc m \<le> j \<and> j < 1024"
    then have "keyGenerator (ex_req_n j) \<noteq> keyGenerator (ex_req_n m)"
      using ex_key_inj [of j m] m by auto
    with Suc.prems(3) j show "?hits1 (keyGenerator (ex_req_n j)) = 0" by simp
  qed
  have le: "Suc m + n \<le> 1024" using Suc.prems(4) by simp
  from st have r1: "rows ?d1 = map ex_series_row [0..<Suc m]" and n1: "next_id ?d1 = int (Suc m) + 1"
    by simp_all
  let ?R = "routeAll submitScore_v2 ex_env_series (?hits1, ?d1) (map ex_req_n [Suc m..<Suc m + n])"
  have sum: "Suc m + n = m + Suc n" by simp
  have eq: "routeAll submitScore_v2 ex_env_series (hits, d) (map ex_req_n [m..<m + Suc n])
      = (fst ?R, snd (submitScore_v2 ex_env_series d (ex_req_n m)) # snd ?R)"
    unfolding upt_step list.map routeAll.simps
      route_pass [where hits = hits and req = "ex_req_n m", OF zero]
    by (simp only: prod.case case_prod_beta fst_conv snd_conv)
  from Suc.IH [OF r1 n1 hits1 le] have a: "list_all accepted (snd ?R)" "length (snd ?R) = n"
    by blast+
  from Suc.IH [OF r1 n1 hits1 le] have b: "rows (snd (fst ?R)) = map ex_series_row [0..<m + Suc n]"
    unfolding sum by blast
  from st have acc: "accepted (snd (submitScore_v2 ex_env_series d (ex_req_n m)))" by blast
  show ?case
    unfolding eq snd_conv fst_conv using a b acc by (simp del: upt_Suc)
qed

lemma series_v1:
  assumes "history d (map ex_series_row [0..<m])" "next_id d = int m + 1"
    and "\<forall>j. m \<le> j \<and> j < 1024 \<longrightarrow> hits (keyGenerator (ex_req_n j)) = 0"
    and "m + n \<le> 1024"
  shows "list_all accepted (snd (routeAll submitScore ex_env_series (hits, d) (map ex_req_n [m..<m + n])))
    \<and> length (snd (routeAll submitScore ex_env_series (hits, d) (map ex_req_n [m..<m + n]))) = n
    \<and> history (snd (fst (routeAll submitScore ex_env_series (hits, d) (map ex_req_n [m..<m + n]))))
        (map ex_series_row [0..<m + n])"
  using assms
proof (induction n arbitrary: hits d m)
  case 0
  then show ?case by simp
next
  case (Suc n)
  let ?d1 = "fst (submitScore ex_env_series d (ex_req_n m))"
  let ?hits1 = "hits(keyGenerator (ex_req_n m) := 1)"
  from Suc.prems(4) have m: "m < 1024" by simp
  from Suc.prems(3) m have zero: "hits (keyGenerator (ex_req_n m)) = 0" by simp
  note st = ex_step [OF m Suc.prems(1,2)]
  have hits1: "\<forall>j. Suc m \<le> j \<and> j < 1024 \<longrightarrow> ?hits1 (keyGenerator (ex_req_n j)) = 0"
  proof (intro allI impI)
    fix j assume j: "Suc m \<le> j \<and> j < 1024"
    then have "keyGenerator (ex_req_n j) \<noteq> keyGenerator (ex_req_n m)"
      using ex_key_inj [of j m] m by auto
    with Suc.prems(3) j show "?hits1 (keyGenerator (ex_req_n j)) = 0" by simp
  qed
  have le: "Suc m + n \<le> 1024" using Suc.prems(4) by simp
  from st have r1: "history ?d1 (map ex_series_row [0..<Suc m])" and n1: "next_id ?d1 = int (Suc m) + 1"
    by simp_all
  let ?R = "routeAll submitScore ex_env_series (?hits1, ?d1) (map ex_req_n [Suc m..<Suc m + n])"
  have sum: "Suc m + n = m + Suc n" by simp
  have eq: "routeAll submitScore ex_env_series (hits, d) (map ex_req_n [m..<m + Suc n])
      = (fst ?R, snd (submitScore ex_env_series d (ex_req_n m)) # snd ?R)"
    unfolding upt_step list.map routeAll.simps
      route_pass [where hits = hits and req = "ex_req_n m", OF zero]
    by (simp only: prod.case case_prod_beta fst_conv snd_conv)
  from Suc.IH [OF r1 n1 hits1 le] have a: "list_all accepted (snd ?R)" "length (snd ?R) = n"
    by blast+
  from Suc.IH [OF r1 n1 hits1 le] have b: "history (snd (fst ?R)) (map ex_series_row [0..<m + Suc n])"
    unfolding sum by blast
  from st have acc: "accepted (snd (submitScore ex_env_series d (ex_req_n m)))" by blast
  show ?case
    unfolding eq snd_conv fst_conv using a b acc by (simp del: upt_Suc)
qed

lemma ex_series_sorted: "sorted (map rank_key (map ex_series_row [0..<n]))"
  by (induction n) (auto simp: sorted_append rank_key_def ex_series_row_def)

lemma ex_series_ranked: "ranked (map ex_series_row [0..<n]) = map ex_series_row [0..<n]"
  unfolding ranked_def using ex_series_sorted by (rule sort_key_id_if_sorted)


lemma ex_run_series:
  "list_all accepted (snd ex_run) \<and> length (snd ex_run) = 101
   \<and> history (snd (fst ex_run)) (map ex_series_row [0..<101])"
proof -
  have h0: "history ex_db (map ex_series_row [0..<0])"
    by (simp add: ex_db_def history_empty)
  have n0: "next_id ex_db = int 0 + 1"
    by (simp add: ex_db_def)
  have z: "\<forall>j. 0 \<le> j \<and> j < 1024 \<longrightarrow> (0::nat) = 0"
    by simp
  have le: "(0::nat) + 101 \<le> 1024" and e: "(0::nat) + 101 = 101"
    by simp_all
  from series_v1 [where hits = "\<lambda>k. 0" and d = ex_db and m = 0 and n = 101, OF h0 n0 z le]
  show ?thesis
    unfolding e ex_run_def .
qed

lemma ex_run_v2_series:
  "list_all accepted (snd ex_run_v2) \<and> length (snd ex_run_v2) = 101
   \<and> rows (snd (fst ex_run_v2)) = map ex_series_row [0..<101]"
proof -
  have r0: "rows ex_db = map ex_series_row [0..<0]"
    by (simp add: ex_db_def)
  have n0: "next_id ex_db = int 0 + 1"
    by (simp add: ex_db_def)
  have z: "\<forall>j. 0 \<le> j \<and> j < 1024 \<longrightarrow> (0::nat) = 0"
    by simp
  have le: "(0::nat) + 101 \<le> 1024" and e: "(0::nat) + 101 = 101"
    by simp_all
  from series_v2 [where hits = "\<lambda>k. 0" and d = ex_db and m = 0 and n = 101, OF r0 n0 z le]
  show ?thesis
    unfolding e ex_run_v2_def .
qed

lemma ex_series_mem: "i < n \<Longrightarrow> ex_series_row i \<in> set (map ex_series_row [0..<n])"
  by simp

lemma ex_series_not_mem: "n \<le> i \<Longrightarrow> ex_series_row i \<notin> set (map ex_series_row [0..<n])"
  by (auto simp: ex_series_row_def)

lemma ex_series_take:
  "n \<le> k \<Longrightarrow> take n (ranked (map ex_series_row [0..<k])) = map ex_series_row [0..<n]"
  by (simp add: ex_series_ranked take_map)

text \<open>
  The run of 101 requests of the series through the route of the variant that prunes:
  all 101 are accepted, the history has 101 rows and the table 100; the row of the last
  request, which ranks last, has been deleted.
\<close>

theorem store_is_top_100_witness:
  "history (snd (fst ex_run)) (map ex_series_row [0..<101])
   \<and> list_all accepted (snd ex_run) \<and> length (snd ex_run) = 101
   \<and> length (map ex_series_row [0..<101]) = 101
   \<and> length (rows (snd (fst ex_run))) = 100
   \<and> ranked (rows (snd (fst ex_run))) = map ex_series_row [0..<100]
   \<and> ex_series_row 99 \<in> set (rows (snd (fst ex_run)))
   \<and> ex_series_row 100 \<in> set (map ex_series_row [0..<101])
   \<and> ex_series_row 100 \<notin> set (rows (snd (fst ex_run)))
   \<and> rank_less (ex_series_row 99) (ex_series_row 100)
   \<and> (\<exists>H'. history (fst (submitScore ex_env (snd (fst ex_run)) ex_req)) H')"
proof -
  let ?D = "snd (fst ex_run)"
  let ?H = "map ex_series_row [0..<101]"
  from ex_run_series have acc: "list_all accepted (snd ex_run)" "length (snd ex_run) = 101"
    and h: "history ?D ?H"
    by blast+
  note t = store_is_top_100 [OF h, of ex_env ex_req]
  from t have len: "length (rows ?D) = min 100 (length ?H)"
    and top: "ranked (rows ?D) = take 100 (ranked ?H)"
    and out: "\<forall>x\<in>set (rows ?D). \<forall>y\<in>set ?H - set (rows ?D). rank_less x y"
    and step: "\<exists>H'. history (fst (submitScore ex_env ?D ex_req)) H'"
    by blast+
  have lH: "length ?H = 101"
    by (simp only: length_map length_upt)
  have len100: "length (rows ?D) = 100"
    unfolding len lH by simp
  have tk: "take 100 (ranked ?H) = map ex_series_row [0..<100]"
    by (rule ex_series_take) simp
  have top100: "ranked (rows ?D) = map ex_series_row [0..<100]"
    unfolding top by (rule tk)
  have "set (rows ?D) = set (ranked (rows ?D))"
    by (simp only: set_ranked)
  then have set: "set (rows ?D) = set (map ex_series_row [0..<100])"
    by (simp only: top100)
  have m99: "ex_series_row 99 \<in> set (rows ?D)"
    unfolding set by (rule ex_series_mem) simp
  have m100: "ex_series_row 100 \<in> set ?H"
    by (rule ex_series_mem) simp
  have n100: "ex_series_row 100 \<notin> set (rows ?D)"
    unfolding set by (rule ex_series_not_mem) simp
  from out m99 m100 n100 have r: "rank_less (ex_series_row 99) (ex_series_row 100)"
    by blast
  from h acc lH len100 top100 m99 m100 n100 r step show ?thesis
    by blast
qed

text \<open>
  C2 (as stated) fails for the second variant of the handler, which has no DELETE: the
  same 101 requests, from 101 addresses and so each within the limit of 12 a minute for
  its address, are all accepted by the route and leave 101 rows in the table.
\<close>

theorem no_prune_keeps_101:
  "list_all accepted (snd ex_run_v2) \<and> length (snd ex_run_v2) = 101
   \<and> length (rows (snd (fst ex_run_v2))) = 101"
proof -
  from ex_run_v2_series have a: "list_all accepted (snd ex_run_v2)" "length (snd ex_run_v2) = 101"
    and r: "rows (snd (fst ex_run_v2)) = map ex_series_row [0..<101]"
    by blast+
  have "length (rows (snd (fst ex_run_v2))) = 101"
    unfolding r by (simp only: length_map length_upt)
  with a show ?thesis by blast
qed

subsection \<open>Replay after pruning\<close>

lemma submit_checks_table:
  assumes "submit_checks E d req = Inr p" and "\<not> txAlreadyUsed E d1 (body_txHash req)"
  shows "submit_checks E d1 req = Inr p"
proof -
  obtain a n t where p: "p = (a, n, t)" by (cases p)
  from assms show ?thesis unfolding p by (auto simp: submit_checks_Inr_iff)
qed

text \<open>
  In the first variant the DELETE can remove the row that the same request has just
  written.  The replay check then no longer finds the transaction hash, and the same
  request is accepted again.
\<close>

theorem replay_accepted_after_prune:
  assumes "submitScore E d req = (d1, Resp 200 b)"
    and "\<not> txAlreadyUsed E d1 (body_txHash req)"
  shows "accepted (snd (submitScore E d1 req))"
proof -
  from submitScore_200D [OF assms(1)] obtain a k t where
    "submit_checks E d req = Inr (a, Fin (of_int k), t)" by blast
  then have "submit_checks E d1 req = Inr (a, Fin (of_int k), t)"
    using assms(2) by (rule submit_checks_table)
  moreover from assms(2) have "pg_text E (body_txHash req) \<notin> set (map row_tx_hash (rows d1))"
    by (simp add: txAlreadyUsed_iff)
  ultimately show ?thesis by (rule Inr_accepted)
qed

lemma insort_key_last:
  "\<forall>x\<in>set xs. f x < f a \<Longrightarrow> insort_key f a xs = xs @ [a]"
  by (induction xs) auto

lemma ex_rows_ids: "map row_id (map ex_row [0..<n]) = map (\<lambda>i. int i + 1) [0..<n]"
  by (simp add: ex_row_def)

lemma ex_rows_hashes: "map row_tx_hash (map ex_row [0..<n]) = map ex_hash [0..<n]"
  by (simp add: ex_row_def)

lemma ex_rows_filter:
  assumes id: "row_id r = int n + 1" and sc: "row_score r < 1000"
  shows "filter (\<lambda>x. row_id x \<in> set (map row_id (take n (ranked (map ex_row [0..<n] @ [r])))))
           (map ex_row [0..<n] @ [r]) = map ex_row [0..<n]"
proof -
  let ?R = "map ex_row [0..<n]"
  have ids: "set (map row_id ?R) = (\<lambda>i. int i + 1) ` {0..<n}"
    unfolding ex_rows_ids by simp
  have dR: "distinct (map row_id ?R)"
    unfolding ex_rows_ids by (simp add: distinct_map inj_on_def)
  have fresh: "row_id r \<notin> set (map row_id ?R)"
    unfolding ids id by auto
  have d1: "distinct (map row_id (?R @ [r]))"
    using dR fresh by simp
  have less: "\<forall>x\<in>set (ranked ?R). rank_key x < rank_key r"
    using sc by (auto simp: set_ranked rank_key_def ex_row_def)
  have "ranked (?R @ [r]) = insort_key rank_key r (ranked ?R)"
    using d1 by (rule ranked_snoc)
  also have "\<dots> = ranked ?R @ [r]"
    using less by (rule insort_key_last)
  finally have "take n (ranked (?R @ [r])) = ranked ?R"
    by (simp add: length_ranked)
  then have keep: "set (map row_id (take n (ranked (?R @ [r])))) = set (map row_id ?R)"
    by (simp only: set_map set_ranked)
  have "filter (\<lambda>x. row_id x \<in> set (map row_id ?R)) (?R @ [r]) = ?R"
    using fresh by (simp add: filter_id_conv)
  then show ?thesis
    by (simp only: keep)
qed

lemma ex_full_rows: "rows ex_db_full = map ex_row [0..<100]"
  by (simp only: ex_db_full_def db.select_convs)

lemma ex_full_next: "next_id ex_db_full = 101"
  by (simp only: ex_db_full_def db.select_convs)

lemma ex_full_prune:
  assumes id: "row_id r = 101" and sc: "row_score r < 1000"
  shows "rows (prune (ex_db_full\<lparr>next_id := next_id ex_db_full + 1, rows := rows ex_db_full @ [r]\<rparr>))
    = rows ex_db_full"
proof -
  have "row_id r = int 100 + 1" using id by simp
  from ex_rows_filter [OF this sc] show ?thesis
    by (simp add: prune_def ex_full_rows del: upt_rec_numeral)
qed

lemma T1_not_in_series: "''T1'' \<noteq> ex_hash i"
proof
  assume e: "''T1'' = ex_hash i"
  have "CHR ''1'' \<in> set ''T1''" by simp
  then have "CHR ''1'' \<in> set (ex_hash i)" by (simp only: e)
  then show False by (simp add: ex_hash_def)
qed

text \<open>
  On the full table, whose 100 rows all have the score 1000, the request for \<open>T1\<close> with
  the score 42 is accepted, its row is deleted at once, and the same request is
  accepted a second time.
\<close>

theorem replay_accepted_after_prune_example:
  "accepted (snd (submitScore ex_env ex_db_full ex_req))
   \<and> rows (fst (submitScore ex_env ex_db_full ex_req)) = rows ex_db_full
   \<and> \<not> txAlreadyUsed ex_env (fst (submitScore ex_env ex_db_full ex_req)) (body_txHash ex_req)
   \<and> accepted (snd (submitScore ex_env (fst (submitScore ex_env ex_db_full ex_req)) ex_req))"
proof -
  have h: "pg_text ex_env (body_txHash ex_req) = ''T1''"
    by (simp add: ex_req_fields)
  have fresh: "''T1'' \<notin> set (map row_tx_hash (rows ex_db_full))"
    unfolding ex_full_rows ex_rows_hashes using T1_not_in_series by auto
  then have "\<not> txAlreadyUsed ex_env ex_db_full (body_txHash ex_req)"
    by (simp only: txAlreadyUsed_iff h not_False_eq_True)
  with ex_checks have c: "submit_checks ex_env ex_db_full ex_req = Inr (ex_player, Fin 42, ex_tx)"
    by (rule submit_checks_table)
  obtain d1 resp where s: "submitScore ex_env ex_db_full ex_req = (d1, resp)"
    by (cases "submitScore ex_env ex_db_full ex_req")
  from fresh have fresh': "pg_text ex_env (body_txHash ex_req) \<notin> set (map row_tx_hash (rows ex_db_full))"
    by (simp only: h not_False_eq_True)
  from Inr_accepted(1) [OF c fresh'] s have acc: "accepted resp" by simp
  then obtain b where resp: "resp = Resp 200 b" by (auto simp: accepted_200)
  from submitScore_200D [OF s [unfolded resp]] c obtain a k t where
    "submit_checks ex_env ex_db_full ex_req = Inr (a, Fin (of_int k), t)"
    and d1: "d1 = prune (ex_db_full\<lparr>next_id := next_id ex_db_full + 1,
                rows := rows ex_db_full @ [new_row ex_env ex_db_full ex_req a k t]\<rparr>)"
    by blast
  with c have k: "k = 42" by simp
  have rows1: "rows d1 = rows ex_db_full"
    unfolding d1 by (rule ex_full_prune) (simp_all add: new_row_def ex_full_next k)
  then have gone: "\<not> txAlreadyUsed ex_env d1 (body_txHash ex_req)"
    using fresh' by (simp only: txAlreadyUsed_iff not_False_eq_True)
  from replay_accepted_after_prune [OF s [unfolded resp] gone]
  have "accepted (snd (submitScore ex_env d1 ex_req))" .
  with acc rows1 gone s show ?thesis by simp
qed

end
